theory Spec2Isabelle
  imports Main "HOL-Library.Sublist" "HOL-Library.Log_Nat" "HOL-Library.Word"
begin

unbundle bit_operations_syntax

section \<open>Stream-URL resolution of the Gaana API (\<open>src/utils/crypto.ts\<close>)\<close>

text \<open>
  The module decrypts an encrypted stream token into an HLS manifest URL, fetches the
  manifest (master playlist, then media playlist) and returns the ordered segment URLs
  with their durations. JavaScript strings are modelled as \<^typ>\<open>string\<close>: one
  \<^typ>\<open>char\<close> per code unit, code units below 256.
\<close>

subsection \<open>String primitives of the JavaScript runtime\<close>

text \<open>\<^verbatim>\<open>s.startsWith(p)\<close>\<close>

definition startsWith :: "string \<Rightarrow> string \<Rightarrow> bool" where
  "startsWith s p = prefix p s"

text \<open>\<^verbatim>\<open>s.indexOf(p)\<close>: the first position where \<open>p\<close> occurs; \<open>None\<close> is the \<open>-1\<close> of JavaScript.\<close>

fun indexOf :: "string \<Rightarrow> string \<Rightarrow> nat option" where
  "indexOf [] p = (if p = [] then Some 0 else None)"
| "indexOf (c # cs) p =
     (if prefix p (c # cs) then Some 0 else map_option Suc (indexOf cs p))"

text \<open>\<^verbatim>\<open>s.indexOf(p, k)\<close> for a non-empty \<open>p\<close>: the search starts at position \<open>k\<close>.\<close>

definition indexOfFrom :: "string \<Rightarrow> string \<Rightarrow> nat \<Rightarrow> nat option" where
  "indexOfFrom s p k = map_option (\<lambda>i. i + k) (indexOf (drop k s) p)"

text \<open>\<^verbatim>\<open>s.includes(p)\<close>\<close>

definition includes_str :: "string \<Rightarrow> string \<Rightarrow> bool" where
  "includes_str s p = (indexOf s p \<noteq> None)"

text \<open>\<^verbatim>\<open>s.lastIndexOf(c)\<close> for a one-character \<open>c\<close>.\<close>

fun lastIndexOf :: "string \<Rightarrow> char \<Rightarrow> nat option" where
  "lastIndexOf [] c = None"
| "lastIndexOf (x # xs) c =
     (case lastIndexOf xs c of
        Some i \<Rightarrow> Some (Suc i)
      | None \<Rightarrow> (if x = c then Some 0 else None))"

text \<open>
  \<^verbatim>\<open>s.substring(a, b)\<close> on non-negative arguments: both are clamped to the length and
  swapped when \<open>a > b\<close>. \<^verbatim>\<open>s.substring(a)\<close> is \<open>substringFrom\<close>.
\<close>

definition substring :: "string \<Rightarrow> nat \<Rightarrow> nat \<Rightarrow> string" where
  "substring s a b =
     (let a' = min a (length s); b' = min b (length s)
      in take (max a' b' - min a' b') (drop (min a' b') s))"

definition substringFrom :: "string \<Rightarrow> nat \<Rightarrow> string" where
  "substringFrom s a = drop a s"

text \<open>
  \<^verbatim>\<open>s.split(d)\<close> for a one-character separator: the pieces between the separators, in
  order. The array always has at least one element (\<^verbatim>\<open>''.split('\n')\<close> is \<^verbatim>\<open>['']\<close>).
\<close>

function split :: "string \<Rightarrow> char \<Rightarrow> string list" where
  "split s d =
     (case dropWhile (\<lambda>c. c \<noteq> d) s of
        [] \<Rightarrow> [takeWhile (\<lambda>c. c \<noteq> d) s]
      | _ # rest \<Rightarrow> takeWhile (\<lambda>c. c \<noteq> d) s # split rest d)"
  by pat_completeness auto
termination
proof (relation "measure (\<lambda>(s, d). length s)")
  show "wf (measure (\<lambda>(s, d). length s))" by simp
next
  fix s :: string and d :: char and x rest
  assume "dropWhile (\<lambda>c. c \<noteq> d) s = x # rest"
  then have "length (x # rest) \<le> length s"
    by (metis length_dropWhile_le)
  then show "((rest, d), (s, d)) \<in> measure (\<lambda>(s, d). length s)"
    by simp
qed

declare split.simps [simp del]

text \<open>\<^verbatim>\<open>s.split(d)[0]\<close>: the piece before the first separator.\<close>

definition split_first :: "string \<Rightarrow> char \<Rightarrow> string" where
  "split_first s d = takeWhile (\<lambda>c. c \<noteq> d) s"

text \<open>
  The white space of \<^verbatim>\<open>trim()\<close> and of \<^verbatim>\<open>parseFloat\<close> among the code units below 256:
  TAB, LF, VT, FF, CR, SP and NBSP.
\<close>

definition isWhiteSpace :: "char \<Rightarrow> bool" where
  "isWhiteSpace c = ((of_char c :: nat) \<in> {9, 10, 11, 12, 13, 32, 160})"

definition trim :: "string \<Rightarrow> string" where
  "trim s = rev (dropWhile isWhiteSpace (rev (dropWhile isWhiteSpace s)))"

text \<open>
  \<^verbatim>\<open>RegExp.test\<close> searches every start position: \<open>searchRegex P s\<close> holds when the
  anchored matcher \<open>P\<close> accepts some suffix of \<open>s\<close> (the empty one included).
\<close>

fun searchRegex :: "(string \<Rightarrow> bool) \<Rightarrow> string \<Rightarrow> bool" where
  "searchRegex P [] = P []"
| "searchRegex P (c # cs) = (P (c # cs) \<or> searchRegex P cs)"

text \<open>The \<^verbatim>\<open>i\<close> flag on ASCII letters: both cases of a letter match.\<close>

definition toLowerAscii :: "char \<Rightarrow> char" where
  "toLowerAscii c =
     (let n = (of_char c :: nat) in if 65 \<le> n \<and> n \<le> 90 then char_of (n + 32) else c)"

text \<open>
  The anchored matcher of \<^verbatim>\<open>\.EXT(\?|$)\<close>: a dot, the extension, then a question
  mark or the end of the input. \<open>ci\<close> is the \<^verbatim>\<open>i\<close> flag.
\<close>

definition extensionAt :: "bool \<Rightarrow> string \<Rightarrow> string \<Rightarrow> bool" where
  "extensionAt ci ext s =
     (let n = Suc (length ext);
          hd_part = take n s;
          hd_part' = (if ci then map toLowerAscii hd_part else hd_part)
      in hd_part' = CHR ''.'' # ext \<and>
         (case drop n s of [] \<Rightarrow> True | c # _ \<Rightarrow> c = CHR ''?''))"

text \<open>\<^verbatim>\<open>/\.(ts|m4s|mp4|m4a|aac)(\?|$)/i.test(line)\<close>\<close>

definition isSegmentLine :: "string \<Rightarrow> bool" where
  "isSegmentLine line =
     searchRegex (\<lambda>s. list_ex (\<lambda>ext. extensionAt True ext s)
        [''ts'', ''m4s'', ''mp4'', ''m4a'', ''aac'']) line"

text \<open>\<^verbatim>\<open>/\.m3u8(\?|$)/.test(line)\<close>\<close>

definition isPlaylistLine :: "string \<Rightarrow> bool" where
  "isPlaylistLine line = searchRegex (extensionAt False ''m3u8'') line"

text \<open>
  \<^verbatim>\<open>line.match(/URI="([^"]+)"/)\<close>: the first capture group of the leftmost match, or
  \<open>None\<close> when there is no match. At a position the match needs \<^verbatim>\<open>URI="\<close>, then a
  non-empty run of characters other than the quote, then the closing quote.
\<close>

definition uriAt :: "string \<Rightarrow> string option" where
  "uriAt s =
     (if prefix ''URI=\"'' s then
        (let body = drop 5 s; run = takeWhile (\<lambda>c. c \<noteq> CHR ''\"'') body
         in if run \<noteq> [] \<and> length run < length body then Some run else None)
      else None)"

fun matchUri :: "string \<Rightarrow> string option" where
  "matchUri [] = None"
| "matchUri (c # cs) =
     (case uriAt (c # cs) of Some u \<Rightarrow> Some u | None \<Rightarrow> matchUri cs)"

subsection \<open>URL helpers\<close>

text \<open>
  \<^verbatim>\<open>getBaseUrl\<close>: the URL without its query string, cut after its last slash; the
  whole of it when it has no slash.
\<close>

definition getBaseUrl :: "string \<Rightarrow> string" where
  "getBaseUrl url =
     (let urlWithoutQuery = split_first url CHR ''?''
      in case lastIndexOf urlWithoutQuery CHR ''/'' of
           Some lastSlash \<Rightarrow> substring urlWithoutQuery 0 (lastSlash + 1)
         | None \<Rightarrow> urlWithoutQuery)"

text \<open>\<^verbatim>\<open>resolveUrl\<close>: a reference against the base that \<open>getBaseUrl\<close> returned.\<close>

definition resolveUrl :: "string \<Rightarrow> string \<Rightarrow> string" where
  "resolveUrl baseUrl path =
     (if startsWith path ''http://'' \<or> startsWith path ''https://'' then path
      else
        (case (if startsWith path ''/'' then
                 (case indexOf baseUrl ''://'' of
                    Some schemeEnd \<Rightarrow>
                      (case indexOfFrom baseUrl ''/'' (schemeEnd + 3) of
                         Some pathStart \<Rightarrow> Some (substring baseUrl 0 pathStart @ path)
                       | None \<Rightarrow> None)
                  | None \<Rightarrow> None)
               else None) of
           Some r \<Rightarrow> r
         | None \<Rightarrow> baseUrl @ path))"

subsection \<open>JavaScript numbers\<close>

text \<open>
  A Number is NaN, an infinity or a finite binary64 value, kept as the rational it
  denotes. The two zeros are one value here: the module only tests a zero for
  truthiness, where they agree.
\<close>

datatype jsnum = NaN | PosInf | NegInf | Fin rat

fun js_neg :: "jsnum \<Rightarrow> jsnum" where
  "js_neg NaN = NaN"
| "js_neg PosInf = NegInf"
| "js_neg NegInf = PosInf"
| "js_neg (Fin q) = Fin (- q)"

definition pow2 :: "int \<Rightarrow> rat" where
  "pow2 k = (if 0 \<le> k then 2 ^ nat k else 1 / 2 ^ nat (- k))"

definition pow10 :: "int \<Rightarrow> rat" where
  "pow10 k = (if 0 \<le> k then 10 ^ nat k else 1 / 10 ^ nat (- k))"

text \<open>
  For \<open>a > 0\<close>: the exponent \<open>e\<close> with \<open>2^e \<le> a < 2^(e+1)\<close>, from the number of bits
  (\<open>floorlog 2\<close>) of the integer part of \<open>a\<close>, or of \<open>1 / a\<close> rounded up when \<open>a < 1\<close>.
\<close>

definition floorLog2 :: "rat \<Rightarrow> int" where
  "floorLog2 a =
     (if 1 \<le> a then int (floorlog 2 (nat \<lfloor>a\<rfloor>)) - 1
      else - int (floorlog 2 (nat (\<lceil>1 / a\<rceil> - 1))))"

definition roundHalfEven :: "rat \<Rightarrow> int" where
  "roundHalfEven m =
     (let f = \<lfloor>m\<rfloor>; r = m - of_int f
      in if r < 1 / 2 then f
         else if 1 / 2 < r then f + 1
         else if even f then f else f + 1)"

text \<open>
  Rounding of a positive real to binary64, to nearest with ties to even: 53 significant
  bits, the least exponent of a unit in the last place is \<open>-1074\<close>, and a result of
  \<open>2^1024\<close> or more is the infinity.
\<close>

definition round64pos :: "rat \<Rightarrow> jsnum" where
  "round64pos a =
     (let e = floorLog2 a;
          p = max (e - 52) (- 1074);
          v = of_int (roundHalfEven (a / pow2 p)) * pow2 p
      in if 2 ^ 1024 \<le> v then PosInf else Fin v)"

definition round64 :: "rat \<Rightarrow> jsnum" where
  "round64 q =
     (if q = 0 then Fin 0
      else if 0 < q then round64pos q
      else js_neg (round64pos (- q)))"

text \<open>The operators \<^verbatim>\<open>*\<close> and \<^verbatim>\<open>+\<close> on Numbers.\<close>

fun js_times :: "jsnum \<Rightarrow> jsnum \<Rightarrow> jsnum" where
  "js_times NaN y = NaN"
| "js_times x NaN = NaN"
| "js_times (Fin a) (Fin b) = round64 (a * b)"
| "js_times (Fin a) y = (if a = 0 then NaN else if 0 < a then y else js_neg y)"
| "js_times x (Fin b) = (if b = 0 then NaN else if 0 < b then x else js_neg x)"
| "js_times x y = (if x = y then PosInf else NegInf)"

fun js_plus :: "jsnum \<Rightarrow> jsnum \<Rightarrow> jsnum" where
  "js_plus NaN y = NaN"
| "js_plus x NaN = NaN"
| "js_plus (Fin a) (Fin b) = round64 (a + b)"
| "js_plus (Fin a) y = y"
| "js_plus x (Fin b) = x"
| "js_plus x y = (if x = y then x else NaN)"

text \<open>\<^verbatim>\<open>Math.round\<close>: the nearest integer, a tie going up.\<close>

fun math_round :: "jsnum \<Rightarrow> jsnum" where
  "math_round (Fin q) = Fin (of_int \<lfloor>q + 1 / 2\<rfloor>)"
| "math_round x = x"

text \<open>A Number is falsy when it is NaN or zero; \<^verbatim>\<open>x || d\<close> is \<open>d\<close> for a falsy \<open>x\<close>.\<close>

definition truthy :: "jsnum \<Rightarrow> bool" where
  "truthy x = (x \<noteq> NaN \<and> x \<noteq> Fin 0)"

definition js_or :: "jsnum \<Rightarrow> jsnum \<Rightarrow> jsnum" where
  "js_or x d = (if truthy x then x else d)"

text \<open>A Number that is not negative; NaN and the positive infinity count as such.\<close>

fun notNegative :: "jsnum \<Rightarrow> bool" where
  "notNegative NegInf = False"
| "notNegative (Fin q) = (0 \<le> q)"
| "notNegative x = True"

text \<open>
  \<^verbatim>\<open>parseFloat\<close>: leading white space is skipped, then the longest prefix that is a
  decimal literal is read (a sign, then \<^verbatim>\<open>Infinity\<close> or digits with an optional
  fraction and an optional exponent); NaN when there is none.
\<close>

definition isDigit :: "char \<Rightarrow> bool" where
  "isDigit c = (48 \<le> (of_char c :: nat) \<and> (of_char c :: nat) \<le> 57)"

definition digitsValue :: "string \<Rightarrow> nat" where
  "digitsValue ds = foldl (\<lambda>acc c. 10 * acc + (of_char c - 48)) 0 ds"

definition parseExponent :: "string \<Rightarrow> int" where
  "parseExponent s =
     (case s of
        [] \<Rightarrow> 0
      | c # r \<Rightarrow>
          if c = CHR ''e'' \<or> c = CHR ''E'' then
            (let negative = (case r of [] \<Rightarrow> False | x # _ \<Rightarrow> x = CHR ''-'');
                 signed = (case r of [] \<Rightarrow> False | x # _ \<Rightarrow> x = CHR ''-'' \<or> x = CHR ''+'');
                 ds = takeWhile isDigit (if signed then tl r else r)
             in if ds = [] then 0
                else if negative then - int (digitsValue ds) else int (digitsValue ds))
          else 0)"

definition parseUnsigned :: "string \<Rightarrow> jsnum" where
  "parseUnsigned s =
     (if prefix ''Infinity'' s then PosInf
      else
        (let ip = takeWhile isDigit s;
             r1 = drop (length ip) s;
             dotted = (case r1 of [] \<Rightarrow> False | c # _ \<Rightarrow> c = CHR ''.'');
             fp = (if dotted then takeWhile isDigit (tl r1) else []);
             r2 = (if dotted then drop (length fp) (tl r1) else r1)
         in if ip = [] \<and> fp = [] then NaN
            else round64 (of_nat (digitsValue (ip @ fp)) / 10 ^ length fp
                          * pow10 (parseExponent r2))))"

definition parseFloat :: "string \<Rightarrow> jsnum" where
  "parseFloat s =
     (case dropWhile isWhiteSpace s of
        [] \<Rightarrow> NaN
      | c # r \<Rightarrow>
          if c = CHR ''-'' then js_neg (parseUnsigned r)
          else if c = CHR ''+'' then parseUnsigned r
          else parseUnsigned (c # r))"

subsection \<open>The media playlist\<close>

record SegmentInfo =
  url :: string
  durationMs :: jsnum

record HlsManifest =
  initSegmentUrl :: "string option"
  segments :: "SegmentInfo list"
  totalDurationMs :: jsnum

text \<open>
  The duration of an \<^verbatim>\<open>#EXTINF:\<close> line:
  \<^verbatim>\<open>Math.round(parseFloat(line.substring(8).split(',')[0]) * 1000) || 6000\<close>.
\<close>

definition parseDuration :: "string \<Rightarrow> jsnum" where
  "parseDuration line =
     (let durationStr = split_first (substringFrom line 8) CHR '',''
      in js_or (math_round (js_times (parseFloat durationStr) (Fin 1000))) (Fin 6000))"

text \<open>
  One iteration of the \<^verbatim>\<open>for (const line of lines)\<close> loop of \<^verbatim>\<open>parseStreamPlaylist\<close>,
  on the loop's variables \<open>(initSegmentUrl, segments, currentDurationMs)\<close>.
\<close>

fun scanLine ::
  "string \<Rightarrow> string option \<times> SegmentInfo list \<times> jsnum \<Rightarrow> string
     \<Rightarrow> string option \<times> SegmentInfo list \<times> jsnum" where
  "scanLine baseUrl (initUrl, segs, currentDurationMs) line =
     (if line = [] then (initUrl, segs, currentDurationMs)
      else
        (let initUrl' =
               (if startsWith line ''#EXT-X-MAP:'' then
                  (case matchUri line of
                     Some u \<Rightarrow> Some (resolveUrl baseUrl u)
                   | None \<Rightarrow> initUrl)
                else initUrl);
             currentDurationMs' =
               (if startsWith line ''#EXTINF:'' then parseDuration line
                else currentDurationMs)
         in if \<not> startsWith line ''#'' \<and> isSegmentLine line then
              (initUrl',
               segs @ [\<lparr>url = resolveUrl baseUrl line, durationMs = currentDurationMs'\<rparr>],
               Fin 6000)
            else (initUrl', segs, currentDurationMs')))"

declare scanLine.simps [simp del]

definition scanLines ::
  "string \<Rightarrow> string option \<times> SegmentInfo list \<times> jsnum \<Rightarrow> string list
     \<Rightarrow> string option \<times> SegmentInfo list \<times> jsnum" where
  "scanLines baseUrl st lines = foldl (scanLine baseUrl) st lines"

definition parseStreamPlaylist :: "string \<Rightarrow> string list \<Rightarrow> HlsManifest" where
  "parseStreamPlaylist playlistUrl lines =
     (let baseUrl = getBaseUrl playlistUrl;
          (initUrl, segs, currentDurationMs) =
             scanLines baseUrl (None, [], Fin 6000) lines
      in \<lparr>initSegmentUrl = initUrl, segments = segs,
          totalDurationMs = foldl (\<lambda>sum s. js_plus sum (durationMs s)) (Fin 0) segs\<rparr>)"

subsection \<open>Bytes, Base64 and UTF-8\<close>

type_synonym byte = "8 word"

text \<open>
  The value of a character in the Base64 alphabets that \<^verbatim>\<open>Buffer.from(s, 'base64')\<close>
  accepts: the standard one and the URL-safe one.
\<close>

definition unbase64 :: "char \<Rightarrow> nat option" where
  "unbase64 c =
     (let n = (of_char c :: nat)
      in if 65 \<le> n \<and> n \<le> 90 then Some (n - 65)
         else if 97 \<le> n \<and> n \<le> 122 then Some (n - 71)
         else if 48 \<le> n \<and> n \<le> 57 then Some (n + 4)
         else if c = CHR ''+'' \<or> c = CHR ''-'' then Some 62
         else if c = CHR ''/'' \<or> c = CHR ''_'' then Some 63
         else None)"

text \<open>
  The sextets that are decoded: characters outside the alphabets are skipped, and the
  first \<^verbatim>\<open>=\<close> ends the input.
\<close>

fun sextets :: "string \<Rightarrow> nat list" where
  "sextets [] = []"
| "sextets (c # cs) =
     (if c = CHR ''='' then []
      else (case unbase64 c of Some v \<Rightarrow> v # sextets cs | None \<Rightarrow> sextets cs))"

text \<open>
  Four sextets give three bytes; a last group of three gives two bytes, of two gives one
  byte, and a single left-over sextet gives none.
\<close>

fun sextetBytes :: "nat list \<Rightarrow> byte list" where
  "sextetBytes (a # b # c # d # rest) =
     of_nat (a * 4 + b div 16) # of_nat ((b mod 16) * 16 + c div 4)
       # of_nat ((c mod 4) * 64 + d) # sextetBytes rest"
| "sextetBytes [a, b, c] =
     [of_nat (a * 4 + b div 16), of_nat ((b mod 16) * 16 + c div 4)]"
| "sextetBytes [a, b] = [of_nat (a * 4 + b div 16)]"
| "sextetBytes _ = []"

text \<open>\<^verbatim>\<open>Buffer.from(s, 'base64')\<close>: it never fails.\<close>

definition base64Decode :: "string \<Rightarrow> byte list" where
  "base64Decode s = sextetBytes (sextets s)"

text \<open>
  \<^verbatim>\<open>buf.toString('utf8')\<close>: the code points of the bytes read as UTF-8, an ill-formed
  sequence giving U+FFFD and the byte that broke it being read again. A code point above
  U+FFFF stands for its two surrogates: like them it is neither white space nor
  printable ASCII, which is all that the cleanup looks at. The arguments
  are the number of continuation bytes still needed, the code point read so far, and
  the bounds of the next continuation byte.
\<close>

fun decodeUtf8 :: "nat \<Rightarrow> nat \<Rightarrow> nat \<Rightarrow> nat \<Rightarrow> byte list \<Rightarrow> nat list" where
  "decodeUtf8 0 cp lo hi [] = []"
| "decodeUtf8 (Suc n) cp lo hi [] = [0xFFFD]"
| "decodeUtf8 0 cp lo hi (x # xs) =
     (let b = unat x
      in if b \<le> 0x7F then b # decodeUtf8 0 0 0x80 0xBF xs
         else if 0xC2 \<le> b \<and> b \<le> 0xDF then decodeUtf8 1 (b mod 32) 0x80 0xBF xs
         else if 0xE0 \<le> b \<and> b \<le> 0xEF then
           decodeUtf8 2 (b mod 16) (if b = 0xE0 then 0xA0 else 0x80)
             (if b = 0xED then 0x9F else 0xBF) xs
         else if 0xF0 \<le> b \<and> b \<le> 0xF4 then
           decodeUtf8 3 (b mod 8) (if b = 0xF0 then 0x90 else 0x80)
             (if b = 0xF4 then 0x8F else 0xBF) xs
         else 0xFFFD # decodeUtf8 0 0 0x80 0xBF xs)"
| "decodeUtf8 (Suc n) cp lo hi (x # xs) =
     (let b = unat x
      in if b < lo \<or> hi < b then 0xFFFD # decodeUtf8 0 0 0x80 0xBF (x # xs)
         else if n = 0 then (cp * 64 + b mod 64) # decodeUtf8 0 0 0x80 0xBF xs
         else decodeUtf8 n (cp * 64 + b mod 64) 0x80 0xBF xs)"

definition utf8ToString :: "byte list \<Rightarrow> nat list" where
  "utf8ToString bytes = decodeUtf8 0 0 0x80 0xBF bytes"

text \<open>The white space of \<^verbatim>\<open>trim()\<close> among all code points.\<close>

definition isWhiteSpaceCode :: "nat \<Rightarrow> bool" where
  "isWhiteSpaceCode u =
     (u \<in> {0x09, 0x0A, 0x0B, 0x0C, 0x0D, 0x20, 0xA0, 0x1680, 0x2028, 0x2029, 0x202F,
            0x205F, 0x3000, 0xFEFF} \<or> (0x2000 \<le> u \<and> u \<le> 0x200A))"

definition trimCodes :: "nat list \<Rightarrow> nat list" where
  "trimCodes s = rev (dropWhile isWhiteSpaceCode (rev (dropWhile isWhiteSpaceCode s)))"

subsection \<open>AES-128 in CBC mode, as \<^verbatim>\<open>createDecipheriv('aes-128-cbc', KEY, IV)\<close> runs it\<close>

definition sbox :: "byte list" where
  "sbox =
     [
      0x63, 0x7C, 0x77, 0x7B, 0xF2, 0x6B, 0x6F, 0xC5, 0x30, 0x01, 0x67, 0x2B, 0xFE, 0xD7, 0xAB, 0x76,
      0xCA, 0x82, 0xC9, 0x7D, 0xFA, 0x59, 0x47, 0xF0, 0xAD, 0xD4, 0xA2, 0xAF, 0x9C, 0xA4, 0x72, 0xC0,
      0xB7, 0xFD, 0x93, 0x26, 0x36, 0x3F, 0xF7, 0xCC, 0x34, 0xA5, 0xE5, 0xF1, 0x71, 0xD8, 0x31, 0x15,
      0x04, 0xC7, 0x23, 0xC3, 0x18, 0x96, 0x05, 0x9A, 0x07, 0x12, 0x80, 0xE2, 0xEB, 0x27, 0xB2, 0x75,
      0x09, 0x83, 0x2C, 0x1A, 0x1B, 0x6E, 0x5A, 0xA0, 0x52, 0x3B, 0xD6, 0xB3, 0x29, 0xE3, 0x2F, 0x84,
      0x53, 0xD1, 0x00, 0xED, 0x20, 0xFC, 0xB1, 0x5B, 0x6A, 0xCB, 0xBE, 0x39, 0x4A, 0x4C, 0x58, 0xCF,
      0xD0, 0xEF, 0xAA, 0xFB, 0x43, 0x4D, 0x33, 0x85, 0x45, 0xF9, 0x02, 0x7F, 0x50, 0x3C, 0x9F, 0xA8,
      0x51, 0xA3, 0x40, 0x8F, 0x92, 0x9D, 0x38, 0xF5, 0xBC, 0xB6, 0xDA, 0x21, 0x10, 0xFF, 0xF3, 0xD2,
      0xCD, 0x0C, 0x13, 0xEC, 0x5F, 0x97, 0x44, 0x17, 0xC4, 0xA7, 0x7E, 0x3D, 0x64, 0x5D, 0x19, 0x73,
      0x60, 0x81, 0x4F, 0xDC, 0x22, 0x2A, 0x90, 0x88, 0x46, 0xEE, 0xB8, 0x14, 0xDE, 0x5E, 0x0B, 0xDB,
      0xE0, 0x32, 0x3A, 0x0A, 0x49, 0x06, 0x24, 0x5C, 0xC2, 0xD3, 0xAC, 0x62, 0x91, 0x95, 0xE4, 0x79,
      0xE7, 0xC8, 0x37, 0x6D, 0x8D, 0xD5, 0x4E, 0xA9, 0x6C, 0x56, 0xF4, 0xEA, 0x65, 0x7A, 0xAE, 0x08,
      0xBA, 0x78, 0x25, 0x2E, 0x1C, 0xA6, 0xB4, 0xC6, 0xE8, 0xDD, 0x74, 0x1F, 0x4B, 0xBD, 0x8B, 0x8A,
      0x70, 0x3E, 0xB5, 0x66, 0x48, 0x03, 0xF6, 0x0E, 0x61, 0x35, 0x57, 0xB9, 0x86, 0xC1, 0x1D, 0x9E,
      0xE1, 0xF8, 0x98, 0x11, 0x69, 0xD9, 0x8E, 0x94, 0x9B, 0x1E, 0x87, 0xE9, 0xCE, 0x55, 0x28, 0xDF,
      0x8C, 0xA1, 0x89, 0x0D, 0xBF, 0xE6, 0x42, 0x68, 0x41, 0x99, 0x2D, 0x0F, 0xB0, 0x54, 0xBB, 0x16]"

definition inv_sbox :: "byte list" where
  "inv_sbox =
     [
      0x52, 0x09, 0x6A, 0xD5, 0x30, 0x36, 0xA5, 0x38, 0xBF, 0x40, 0xA3, 0x9E, 0x81, 0xF3, 0xD7, 0xFB,
      0x7C, 0xE3, 0x39, 0x82, 0x9B, 0x2F, 0xFF, 0x87, 0x34, 0x8E, 0x43, 0x44, 0xC4, 0xDE, 0xE9, 0xCB,
      0x54, 0x7B, 0x94, 0x32, 0xA6, 0xC2, 0x23, 0x3D, 0xEE, 0x4C, 0x95, 0x0B, 0x42, 0xFA, 0xC3, 0x4E,
      0x08, 0x2E, 0xA1, 0x66, 0x28, 0xD9, 0x24, 0xB2, 0x76, 0x5B, 0xA2, 0x49, 0x6D, 0x8B, 0xD1, 0x25,
      0x72, 0xF8, 0xF6, 0x64, 0x86, 0x68, 0x98, 0x16, 0xD4, 0xA4, 0x5C, 0xCC, 0x5D, 0x65, 0xB6, 0x92,
      0x6C, 0x70, 0x48, 0x50, 0xFD, 0xED, 0xB9, 0xDA, 0x5E, 0x15, 0x46, 0x57, 0xA7, 0x8D, 0x9D, 0x84,
      0x90, 0xD8, 0xAB, 0x00, 0x8C, 0xBC, 0xD3, 0x0A, 0xF7, 0xE4, 0x58, 0x05, 0xB8, 0xB3, 0x45, 0x06,
      0xD0, 0x2C, 0x1E, 0x8F, 0xCA, 0x3F, 0x0F, 0x02, 0xC1, 0xAF, 0xBD, 0x03, 0x01, 0x13, 0x8A, 0x6B,
      0x3A, 0x91, 0x11, 0x41, 0x4F, 0x67, 0xDC, 0xEA, 0x97, 0xF2, 0xCF, 0xCE, 0xF0, 0xB4, 0xE6, 0x73,
      0x96, 0xAC, 0x74, 0x22, 0xE7, 0xAD, 0x35, 0x85, 0xE2, 0xF9, 0x37, 0xE8, 0x1C, 0x75, 0xDF, 0x6E,
      0x47, 0xF1, 0x1A, 0x71, 0x1D, 0x29, 0xC5, 0x89, 0x6F, 0xB7, 0x62, 0x0E, 0xAA, 0x18, 0xBE, 0x1B,
      0xFC, 0x56, 0x3E, 0x4B, 0xC6, 0xD2, 0x79, 0x20, 0x9A, 0xDB, 0xC0, 0xFE, 0x78, 0xCD, 0x5A, 0xF4,
      0x1F, 0xDD, 0xA8, 0x33, 0x88, 0x07, 0xC7, 0x31, 0xB1, 0x12, 0x10, 0x59, 0x27, 0x80, 0xEC, 0x5F,
      0x60, 0x51, 0x7F, 0xA9, 0x19, 0xB5, 0x4A, 0x0D, 0x2D, 0xE5, 0x7A, 0x9F, 0x93, 0xC9, 0x9C, 0xEF,
      0xA0, 0xE0, 0x3B, 0x4D, 0xAE, 0x2A, 0xF5, 0xB0, 0xC8, 0xEB, 0xBB, 0x3C, 0x83, 0x53, 0x99, 0x61,
      0x17, 0x2B, 0x04, 0x7E, 0xBA, 0x77, 0xD6, 0x26, 0xE1, 0x69, 0x14, 0x63, 0x55, 0x21, 0x0C, 0x7D]"

definition subByte :: "byte \<Rightarrow> byte" where
  "subByte b = sbox ! unat b"

definition invSubByte :: "byte \<Rightarrow> byte" where
  "invSubByte b = inv_sbox ! unat b"

text \<open>Multiplication by \<open>x\<close> in the field of AES, and by the constants of \<open>InvMixColumns\<close>.\<close>

definition xtime :: "byte \<Rightarrow> byte" where
  "xtime b = (if bit b 7 then push_bit 1 b XOR 0x1B else push_bit 1 b)"

definition mul9 :: "byte \<Rightarrow> byte" where
  "mul9 b = xtime (xtime (xtime b)) XOR b"

definition mul11 :: "byte \<Rightarrow> byte" where
  "mul11 b = xtime (xtime (xtime b)) XOR xtime b XOR b"

definition mul13 :: "byte \<Rightarrow> byte" where
  "mul13 b = xtime (xtime (xtime b)) XOR xtime (xtime b) XOR b"

definition mul14 :: "byte \<Rightarrow> byte" where
  "mul14 b = xtime (xtime (xtime b)) XOR xtime (xtime b) XOR xtime b"

definition xorBytes :: "byte list \<Rightarrow> byte list \<Rightarrow> byte list" where
  "xorBytes xs ys = map2 (XOR) xs ys"

text \<open>
  The state is the block itself, column after column: byte \<open>r + 4 c\<close> is row \<open>r\<close> of
  column \<open>c\<close>. \<open>InvShiftRows\<close> moves row \<open>r\<close> by \<open>r\<close> columns to the right.
\<close>

definition invShiftRows :: "byte list \<Rightarrow> byte list" where
  "invShiftRows s = map (\<lambda>i. s ! i) [0, 13, 10, 7, 4, 1, 14, 11, 8, 5, 2, 15, 12, 9, 6, 3]"

definition invSubBytes :: "byte list \<Rightarrow> byte list" where
  "invSubBytes s = map invSubByte s"

fun invMixColumns :: "byte list \<Rightarrow> byte list" where
  "invMixColumns (a0 # a1 # a2 # a3 # rest) =
     (mul14 a0 XOR mul11 a1 XOR mul13 a2 XOR mul9 a3)
     # (mul9 a0 XOR mul14 a1 XOR mul11 a2 XOR mul13 a3)
     # (mul13 a0 XOR mul9 a1 XOR mul14 a2 XOR mul11 a3)
     # (mul11 a0 XOR mul13 a1 XOR mul9 a2 XOR mul14 a3)
     # invMixColumns rest"
| "invMixColumns _ = []"

text \<open>The next round key from the previous one and the round constant.\<close>

definition nextRoundKey :: "byte \<Rightarrow> byte list \<Rightarrow> byte list" where
  "nextRoundKey rcon k =
     (let w0 = take 4 k; w1 = take 4 (drop 4 k); w2 = take 4 (drop 8 k); w3 = drop 12 k;
          t = xorBytes (map subByte (drop 1 w3 @ take 1 w3)) [rcon, 0, 0, 0];
          w0' = xorBytes w0 t;
          w1' = xorBytes w1 w0';
          w2' = xorBytes w2 w1';
          w3' = xorBytes w3 w2'
      in w0' @ w1' @ w2' @ w3')"

text \<open>The eleven round keys, the last one first: the order in which decryption uses them.\<close>

definition roundKeysRev :: "byte list \<Rightarrow> byte list list" where
  "roundKeysRev k =
     foldl (\<lambda>ks rcon. case ks of [] \<Rightarrow> [] | prev # _ \<Rightarrow> nextRoundKey rcon prev # ks) [k]
       [0x01, 0x02, 0x04, 0x08, 0x10, 0x20, 0x40, 0x80, 0x1B, 0x36]"

text \<open>The inverse cipher of FIPS 197 on one block.\<close>

fun invRounds :: "byte list list \<Rightarrow> byte list \<Rightarrow> byte list" where
  "invRounds [k0] s = xorBytes (invSubBytes (invShiftRows s)) k0"
| "invRounds (k # ks) s =
     invRounds ks (invMixColumns (xorBytes (invSubBytes (invShiftRows s)) k))"
| "invRounds [] s = s"

definition aesDecryptBlock :: "byte list list \<Rightarrow> byte list \<Rightarrow> byte list" where
  "aesDecryptBlock ksRev block =
     (case ksRev of
        [] \<Rightarrow> block
      | kLast # ks \<Rightarrow> invRounds ks (xorBytes block kLast))"

text \<open>CBC: a decrypted block is combined with the ciphertext block before it.\<close>

fun cbcDecrypt :: "byte list list \<Rightarrow> byte list \<Rightarrow> byte list list \<Rightarrow> byte list" where
  "cbcDecrypt ksRev prev [] = []"
| "cbcDecrypt ksRev prev (c # cs) =
     xorBytes (aesDecryptBlock ksRev c) prev @ cbcDecrypt ksRev c cs"

function blocks16 :: "byte list \<Rightarrow> byte list list" where
  "blocks16 xs = (if length xs < 16 then [] else take 16 xs # blocks16 (drop 16 xs))"
  by pat_completeness auto
termination
  by (relation "measure length") auto

declare blocks16.simps [simp del]

definition KEY :: "byte list" where
  "KEY = map of_char ''gy1t#b@jl(b$wtme''"

definition IV :: "byte list" where
  "IV = map of_char ''xC4dmVJAq14BfntX''"

definition HLS_BASE_URL :: string where
  "HLS_BASE_URL = ''https://vodhlsgaana-ebw.akamaized.net/''"

subsection \<open>The path decryptor\<close>

datatype decrypt_error = MalformedToken | CipherError | PathMarkerNotFound

text \<open>
  \<^verbatim>\<open>decipher.update(ciphertext)\<close> with the automatic padding off: every whole block is
  decrypted; the bytes after the last whole block stay in the cipher.
\<close>

definition decipherUpdate :: "byte list \<Rightarrow> byte list \<times> byte list" where
  "decipherUpdate ciphertext =
     (let n = 16 * (length ciphertext div 16)
      in (cbcDecrypt (roundKeysRev KEY) IV (blocks16 (take n ciphertext)),
          drop n ciphertext))"

text \<open>
  \<^verbatim>\<open>decipher.final()\<close> with the automatic padding off: it throws (wrong final block
  length) when bytes are left in the cipher, and returns no bytes otherwise.
\<close>

definition decipherFinal :: "byte list \<Rightarrow> decrypt_error + byte list" where
  "decipherFinal pending = (if pending = [] then Inr [] else Inl CipherError)"

text \<open>Lines 167 to 171: the decrypted bytes, or the exception of \<^verbatim>\<open>final()\<close>.\<close>

definition decipher :: "byte list \<Rightarrow> decrypt_error + byte list" where
  "decipher ciphertext =
     (let (decrypted, pending) = decipherUpdate ciphertext
      in case decipherFinal pending of
           Inl e \<Rightarrow> Inl e
         | Inr final \<Rightarrow> Inr (decrypted @ final))"

text \<open>
  Lines 174 to 181: the text of the bytes without its NUL characters, trimmed, and then
  without every character outside the printable ASCII range 32 to 126.
\<close>

definition cleanText :: "byte list \<Rightarrow> string" where
  "cleanText decrypted =
     (let rawText = trimCodes (filter (\<lambda>u. u \<noteq> 0) (utf8ToString decrypted))
      in map char_of (filter (\<lambda>code. 32 \<le> code \<and> code \<le> 126) rawText))"

text \<open>
  Lines 184 to 191. \<^verbatim>\<open>rawText.substring(-1)\<close> would be the whole text: the branch of an
  absent \<^verbatim>\<open>hls/\<close> inside a text that includes \<^verbatim>\<open>/hls/\<close>.
\<close>

definition extractHlsPath :: "string \<Rightarrow> decrypt_error + string" where
  "extractHlsPath rawText =
     (if includes_str rawText ''/hls/'' then
        (case indexOf rawText ''hls/'' of
           Some pathStart \<Rightarrow> Inr (HLS_BASE_URL @ substringFrom rawText pathStart)
         | None \<Rightarrow> Inr (HLS_BASE_URL @ rawText))
      else Inl PathMarkerNotFound)"

text \<open>\<^verbatim>\<open>parseInt(encryptedData[0], 10)\<close>: a digit, or NaN (\<open>None\<close>).\<close>

definition parseOffset :: "string \<Rightarrow> nat option" where
  "parseOffset encryptedData =
     (case encryptedData of
        [] \<Rightarrow> None
      | c # _ \<Rightarrow> if isDigit c then Some (of_char c - 48) else None)"

text \<open>
  \<^verbatim>\<open>decryptStreamPath\<close> with the exit it takes: \<open>MalformedToken\<close> is the return of the
  invalid offset, \<open>CipherError\<close> the \<^verbatim>\<open>catch\<close> block, \<open>PathMarkerNotFound\<close> the last
  return.
\<close>

definition decryptResult :: "string \<Rightarrow> decrypt_error + string" where
  "decryptResult encryptedData =
     (case parseOffset encryptedData of
        None \<Rightarrow> Inl MalformedToken
      | Some offset \<Rightarrow>
          (let ciphertextB64 = substringFrom encryptedData (offset + 16);
               ciphertext = base64Decode (ciphertextB64 @ ''=='')
           in case decipher ciphertext of
                Inl e \<Rightarrow> Inl e
              | Inr decrypted \<Rightarrow> extractHlsPath (cleanText decrypted)))"

text \<open>What the caller sees: the URL, or the empty string on every failure.\<close>

definition decryptStreamPath :: "string \<Rightarrow> string" where
  "decryptStreamPath encryptedData =
     (case decryptResult encryptedData of Inl e \<Rightarrow> [] | Inr u \<Rightarrow> u)"

subsection \<open>The manifest resolver\<close>

text \<open>
  The network is a function of the URL and of a state of the world, which it may
  change: two fetches of one URL can differ. A fetch rejects, or resolves with a
  response (\<^verbatim>\<open>res.ok\<close>, \<^verbatim>\<open>res.status\<close>, \<^verbatim>\<open>res.text()\<close>).
\<close>

datatype response = Rejected | Response bool nat string

type_synonym 'w fetcher = "string \<Rightarrow> 'w \<Rightarrow> response \<times> 'w"

datatype quality = Low | Medium | High

text \<open>
  The calls that leave the module, in the order in which they are made: the state that
  is threaded through the asynchronous functions is the world and this log.
\<close>

datatype event = UpstreamLookup string quality | DecryptCall string | PlaylistFetch string

datatype manifest_error = FetchFailure | EmptyManifest

text \<open>\<^verbatim>\<open>fetchPlaylist\<close>: the trimmed lines of the body, or the exception.\<close>

definition fetchPlaylist ::
  "'w fetcher \<Rightarrow> string \<Rightarrow> 'w \<times> event list
     \<Rightarrow> (manifest_error + string list) \<times> 'w \<times> event list" where
  "fetchPlaylist net u st =
     (case st of (w, trace) \<Rightarrow>
        (case net u w of (res, w') \<Rightarrow>
           (case res of
              Rejected \<Rightarrow> (Inl FetchFailure, w', trace @ [PlaylistFetch u])
            | Response ok status body \<Rightarrow>
                if \<not> ok then (Inl FetchFailure, w', trace @ [PlaylistFetch u])
                else (Inr (map trim (split body (CHR 0x0A))), w', trace @ [PlaylistFetch u]))))"

text \<open>The condition of the loop that looks for the nested playlist.\<close>

definition isNestedPlaylist :: "string \<Rightarrow> bool" where
  "isNestedPlaylist line = (line \<noteq> [] \<and> \<not> startsWith line ''#'' \<and> isPlaylistLine line)"

text \<open>
  \<^verbatim>\<open>parseHlsManifest\<close>. An empty \<open>streamPlaylistUrl\<close> is falsy, as the undefined one
  is: the master is then parsed as the stream playlist.
\<close>

definition parseHlsManifest ::
  "'w fetcher \<Rightarrow> string \<Rightarrow> 'w \<times> event list
     \<Rightarrow> (manifest_error + HlsManifest) \<times> 'w \<times> event list" where
  "parseHlsManifest net masterUrl st =
     (case fetchPlaylist net masterUrl st of
        (Inl e, st1) \<Rightarrow> (Inl e, st1)
      | (Inr masterLines, st1) \<Rightarrow>
          if length masterLines = 0 then (Inl EmptyManifest, st1)
          else
            (let baseUrl = getBaseUrl masterUrl;
                 streamPlaylistUrl =
                   (case find isNestedPlaylist masterLines of
                      None \<Rightarrow> []
                    | Some line \<Rightarrow> resolveUrl baseUrl line)
             in if streamPlaylistUrl = [] then
                  (Inr (parseStreamPlaylist masterUrl masterLines), st1)
                else
                  (case fetchPlaylist net streamPlaylistUrl st1 of
                     (Inl e, st2) \<Rightarrow> (Inl e, st2)
                   | (Inr streamLines, st2) \<Rightarrow>
                       (Inr (parseStreamPlaylist streamPlaylistUrl streamLines), st2))))"

subsection \<open>The orchestrator\<close>

text \<open>The JSON of the upstream answer, as the cast of \<^verbatim>\<open>fetchStreamUrl\<close> types it.\<close>

record stream_data =
  stream_path :: "string option"
  bit_rate :: "string option"
  track_format :: "string option"

record api_response =
  api_status :: "string option"
  api_data :: "stream_data option"

text \<open>
  The upstream call rejects, or its body is not the JSON of an object (\<open>LookupFailed\<close>: an
  exception inside \<^verbatim>\<open>fetchStreamUrl\<close>), or it answers.
\<close>

datatype api_reply = LookupFailed | Json api_response

type_synonym 'w upstream = "string \<Rightarrow> quality \<Rightarrow> 'w \<Rightarrow> api_reply \<times> 'w"

text \<open>
  \<^verbatim>\<open>MediaUrl\<close>. Its fields \<^verbatim>\<open>url\<close>, \<^verbatim>\<open>segments\<close> and \<^verbatim>\<open>durationMs\<close> are \<open>mediaUrl\<close>,
  \<open>mediaSegments\<close> and \<open>mediaDurationMs\<close> here, apart from those of the manifest.
\<close>

record MediaUrl =
  quality :: quality
  bitRate :: string
  hlsUrl :: string
  mediaUrl :: string
  initUrl :: "string option"
  mediaSegments :: "SegmentInfo list"
  mediaDurationMs :: jsnum
  format :: string

text \<open>
  The token that passes \<^verbatim>\<open>data.api_status === 'success' && data.data?.stream_path\<close>
  with the data it belongs to; the empty token is falsy.
\<close>

definition acceptedToken :: "api_response \<Rightarrow> (string \<times> stream_data) option" where
  "acceptedToken d =
     (if api_status d = Some ''success'' then
        (case api_data d of
           None \<Rightarrow> None
         | Some sd \<Rightarrow>
             (case stream_path sd of
                None \<Rightarrow> None
              | Some p \<Rightarrow> if p = [] then None else Some (p, sd)))
      else None)"

text \<open>Lines 278 to 283: the format from the first segment's URL.\<close>

definition detectFormat :: "string \<Rightarrow> string" where
  "detectFormat firstSegmentUrl =
     (if includes_str firstSegmentUrl ''.m4s'' then ''m4s''
      else if includes_str firstSegmentUrl ''.mp4'' then ''mp4''
      else if includes_str firstSegmentUrl ''.ts'' then ''ts''
      else if includes_str firstSegmentUrl ''.aac'' then ''aac''
      else ''m4a'')"

text \<open>
  \<^verbatim>\<open>fetchStreamUrl\<close>: \<open>None\<close> is \<^verbatim>\<open>null\<close>. Every exception inside ends in the
  \<^verbatim>\<open>catch\<close> block, which returns \<^verbatim>\<open>null\<close>.
\<close>

definition fetchStreamUrl ::
  "'w upstream \<Rightarrow> 'w fetcher \<Rightarrow> string \<Rightarrow> quality \<Rightarrow> 'w \<times> event list
     \<Rightarrow> MediaUrl option \<times> 'w \<times> event list" where
  "fetchStreamUrl lookup net trackId q st =
     (case st of (w, trace) \<Rightarrow>
        (case lookup trackId q w of (reply, w1) \<Rightarrow>
           (let st1 = (w1, trace @ [UpstreamLookup trackId q])
            in case reply of
                 LookupFailed \<Rightarrow> (None, st1)
               | Json d \<Rightarrow>
                   (case acceptedToken d of
                      None \<Rightarrow> (None, st1)
                    | Some (token, sd) \<Rightarrow>
                        (let hlsUrl' = decryptStreamPath token;
                             st2 = (fst st1, snd st1 @ [DecryptCall token])
                         in if hlsUrl' = [] then (None, st2)
                            else
                              (case parseHlsManifest net hlsUrl' st2 of
                                 (Inl e, st3) \<Rightarrow> (None, st3)
                               | (Inr manifest, st3) \<Rightarrow>
                                   (case segments manifest of
                                      [] \<Rightarrow> (None, st3)
                                    | first # _ \<Rightarrow>
                                        (Some \<lparr>quality = q,
                                           bitRate = (case bit_rate sd of None \<Rightarrow> [] | Some b \<Rightarrow> b),
                                           hlsUrl = hlsUrl',
                                           mediaUrl = url first,
                                           initUrl = initSegmentUrl manifest,
                                           mediaSegments = segments manifest,
                                           mediaDurationMs = totalDurationMs manifest,
                                           format = detectFormat (url first)\<rparr>,
                                         st3))))))))"

text \<open>\<^verbatim>\<open>getMediaUrls\<close>: only the high quality is tried.\<close>

definition getMediaUrls ::
  "'w upstream \<Rightarrow> 'w fetcher \<Rightarrow> string \<Rightarrow> 'w \<times> event list
     \<Rightarrow> MediaUrl list \<times> 'w \<times> event list" where
  "getMediaUrls lookup net trackId st =
     (case fetchStreamUrl lookup net trackId High st of
        (None, st') \<Rightarrow> ([], st')
      | (Some highQuality, st') \<Rightarrow> ([highQuality], st'))"

section \<open>Properties\<close>

subsection \<open>Facts about the string primitives\<close>

lemma split_nonempty: "split s d \<noteq> []"
  by (subst split.simps) (simp split: list.splits)

lemma indexOf_Some_decomp:
  "indexOf s p = Some i \<Longrightarrow> \<exists>b. drop i s = p @ b \<and> i \<le> length s"
proof (induction s arbitrary: i)
  case Nil
  then show ?case by (simp split: if_splits)
next
  case (Cons c cs)
  show ?case
  proof (cases "prefix p (c # cs)")
    case True
    with Cons.prems have "i = 0" by simp
    with True show ?thesis by (auto simp: prefix_def)
  next
    case False
    with Cons.prems obtain j where j: "indexOf cs p = Some j" "i = Suc j" by auto
    from Cons.IH[OF j(1)] j(2) show ?thesis by simp
  qed
qed

lemma indexOf_None_iff: "indexOf s p = None \<longleftrightarrow> \<not> sublist p s"
proof (induction s)
  case Nil
  then show ?case by simp
next
  case (Cons c cs)
  then show ?case by (auto simp: sublist_Cons_right)
qed

lemma includes_str_sublist: "includes_str s p \<longleftrightarrow> sublist p s"
  using indexOf_None_iff[of s p] by (simp add: includes_str_def)

lemma indexOf_first:
  "indexOf s p = Some i \<Longrightarrow> j < i \<Longrightarrow> \<not> prefix p (drop j s)"
proof (induction s arbitrary: i j)
  case Nil
  then show ?case by (simp split: if_splits)
next
  case (Cons c cs)
  show ?case
  proof (cases "prefix p (c # cs)")
    case True
    with Cons.prems show ?thesis by simp
  next
    case False
    with Cons.prems obtain k where k: "indexOf cs p = Some k" "i = Suc k" by auto
    show ?thesis
    proof (cases j)
      case 0
      with False show ?thesis by simp
    next
      case (Suc j')
      with Cons.prems(2) k(2) have "j' < k" by simp
      from Cons.IH[OF k(1) this] Suc show ?thesis by simp
    qed
  qed
qed

lemma indexOf_append_fresh:
  "\<forall>j < length a. \<not> prefix p (drop j (a @ p @ b)) \<Longrightarrow> indexOf (a @ p @ b) p = Some (length a)"
proof (induction a)
  case Nil
  have "prefix p (p @ b)" by simp
  then show ?case by (cases "p @ b") (simp, metis indexOf.simps(2) append_Nil length_0_conv list.size(3))
next
  case (Cons c cs)
  from Cons.prems have "\<not> prefix p ((c # cs) @ p @ b)" by (metis drop0 length_greater_0_conv list.distinct(1))
  moreover have "\<forall>j<length cs. \<not> prefix p (drop j (cs @ p @ b))"
  proof (intro allI impI)
    fix j assume "j < length cs"
    then have "Suc j < length (c # cs)" by simp
    with Cons.prems have "\<not> prefix p (drop (Suc j) ((c # cs) @ p @ b))" by blast
    then show "\<not> prefix p (drop j (cs @ p @ b))" by simp
  qed
  ultimately show ?case using Cons.IH by simp
qed

lemma lastIndexOf_append:
  "c \<notin> set f \<Longrightarrow> lastIndexOf (d @ c # f) c = Some (length d)"
proof (induction d)
  case Nil
  have "lastIndexOf f c = None" using Nil by (induction f) auto
  then show ?case by simp
next
  case (Cons x xs)
  then show ?case by simp
qed

subsection \<open>The lines of a fetched playlist\<close>

lemma fetchPlaylist_cases:
  "(\<exists>st'. fetchPlaylist net u st = (Inl FetchFailure, st')) \<or>
   (\<exists>ls st'. fetchPlaylist net u st = (Inr ls, st') \<and> ls \<noteq> [])"
  by (auto simp: fetchPlaylist_def split_nonempty split: prod.splits response.splits)

text \<open>
  No fetched text gives an empty list of lines, so the test
  \<^verbatim>\<open>masterLines.length === 0\<close> never holds and \<^verbatim>\<open>parseHlsManifest\<close> never fails with
  \<open>EmptyManifest\<close>.
\<close>

lemma parseHlsManifest_never_EmptyManifest:
  "fst (parseHlsManifest net masterUrl st) \<noteq> Inl EmptyManifest"
proof -
  consider st1 where "fetchPlaylist net masterUrl st = (Inl FetchFailure, st1)"
    | ls st1 where "fetchPlaylist net masterUrl st = (Inr ls, st1)" "ls \<noteq> []"
    using fetchPlaylist_cases[of net masterUrl st] by blast
  then show ?thesis
  proof cases
    case 1
    then show ?thesis by (simp add: parseHlsManifest_def)
  next
    case 2
    define u2 where "u2 = (case find isNestedPlaylist ls of None \<Rightarrow> []
      | Some line \<Rightarrow> resolveUrl (getBaseUrl masterUrl) line)"
    consider st2 where "fetchPlaylist net u2 st1 = (Inl FetchFailure, st2)"
      | ls2 st2 where "fetchPlaylist net u2 st1 = (Inr ls2, st2)"
      using fetchPlaylist_cases[of net u2 st1] by blast
    then show ?thesis
      using 2 by cases (auto simp: parseHlsManifest_def Let_def u2_def)
  qed
qed

text \<open>
  Claim C5: a fetched text whose list of trimmed lines is empty makes the resolver fail
  with \<open>EmptyManifest\<close>. On the empty body, the one text without any content, the list
  of lines holds one empty line, the test for the empty list fails, and the resolver
  returns a manifest without segments instead of the failure.
\<close>

theorem parseHlsManifest_empty_body:
  "parseHlsManifest (\<lambda>u w. (Response True 200 [], w)) ''https://h/a/master.m3u8'' ((), []) =
     (Inr \<lparr>initSegmentUrl = None, segments = [], totalDurationMs = Fin 0\<rparr>,
      (), [PlaylistFetch ''https://h/a/master.m3u8''])"
  by (simp add: parseHlsManifest_def fetchPlaylist_def trim_def isNestedPlaylist_def
      parseStreamPlaylist_def scanLines_def scanLine.simps split.simps)

subsection \<open>The orchestrator without a token\<close>

text \<open>
  Claim C8: when the upstream lookup answers with a status other than success, or with
  no encrypted token (absent or empty), \<^verbatim>\<open>fetchStreamUrl\<close> returns \<^verbatim>\<open>null\<close>; the only call
  it has made is the lookup: no decryption and no manifest fetch are in the log, and the
  world is as the lookup left it.
\<close>

theorem fetchStreamUrl_without_token:
  assumes "lookup trackId q w = (Json d, w')"
    and "api_status d \<noteq> Some ''success'' \<or>
         (\<forall>sd. api_data d = Some sd \<longrightarrow> stream_path sd = None \<or> stream_path sd = Some [])"
  shows "fetchStreamUrl lookup net trackId q (w, evs) =
           (None, w', evs @ [UpstreamLookup trackId q])"
proof -
  have "acceptedToken d = None"
    using assms(2) by (auto simp: acceptedToken_def split: option.splits)
  with assms(1) show ?thesis by (simp add: fetchStreamUrl_def)
qed

theorem fetchStreamUrl_without_token_witness:
  "fetchStreamUrl (\<lambda>t q w. (Json \<lparr>api_status = Some ''error'', api_data = None\<rparr>, Suc w))
     (\<lambda>u w. (Rejected, w + 10)) ''123'' High (0, [])
     = (None, Suc 0, [UpstreamLookup ''123'' High])
   \<and> fetchStreamUrl (\<lambda>t q w. (Json \<lparr>api_status = Some ''success'',
          api_data = Some \<lparr>stream_path = None, bit_rate = Some ''128'',
            track_format = None\<rparr>\<rparr>, Suc w))
     (\<lambda>u w. (Rejected, w + 10)) ''123'' Low (0, [])
     = (None, Suc 0, [UpstreamLookup ''123'' Low])"
  using fetchStreamUrl_without_token[of
      "\<lambda>t q w. (Json \<lparr>api_status = Some ''error'', api_data = None\<rparr>, Suc w)"
      "''123''" High 0 "\<lparr>api_status = Some ''error'', api_data = None\<rparr>" "Suc 0"
      "\<lambda>u w. (Rejected, w + 10)" "[]"]
    fetchStreamUrl_without_token[of
      "\<lambda>t q w. (Json \<lparr>api_status = Some ''success'',
          api_data = Some \<lparr>stream_path = None, bit_rate = Some ''128'',
            track_format = None\<rparr>\<rparr>, Suc w)"
      "''123''" Low 0
      "\<lparr>api_status = Some ''success'',
          api_data = Some \<lparr>stream_path = None, bit_rate = Some ''128'',
            track_format = None\<rparr>\<rparr>" "Suc 0"
      "\<lambda>u w. (Rejected, w + 10)" "[]"]
  by simp

subsection \<open>Evaluating numbers and durations\<close>

lemma floor_rat_numeral_div:
  "\<lfloor>(numeral a :: rat) / numeral b\<rfloor> = numeral a div numeral b"
  using floor_divide_of_int_eq[of "numeral a" "numeral b", where ?'a = rat] by simp

lemma floor_rat_neg_numeral_div:
  "\<lfloor>- ((numeral a :: rat) / numeral b)\<rfloor> = - numeral a div numeral b"
  using floor_divide_of_int_eq[of "- numeral a" "numeral b", where ?'a = rat] by simp

lemma floor_rat_one_div:
  "\<lfloor>(1 :: rat) / numeral b\<rfloor> = 1 div numeral b"
  using floor_divide_of_int_eq[of 1 "numeral b", where ?'a = rat] by simp

lemma ceiling_rat_numeral_div:
  "\<lceil>(numeral a :: rat) / numeral b\<rceil> = - (- numeral a div numeral b)"
  using floor_rat_neg_numeral_div[of a b] by (simp add: ceiling_def)

lemmas number_defs = parseDuration_def split_first_def substringFrom_def parseFloat_def
  isWhiteSpace_def parseUnsigned_def isDigit_def digitsValue_def parseExponent_def pow10_def
  round64_def round64pos_def floorLog2_def pow2_def roundHalfEven_def js_or_def truthy_def
  compute_floorlog Let_def floor_rat_numeral_div floor_rat_neg_numeral_div floor_rat_one_div
  ceiling_rat_numeral_div

subsection \<open>The scan of the media playlist\<close>

lemma startsWith_hash: "startsWith l (CHR ''#'' # p) \<Longrightarrow> startsWith l ''#''"
  by (auto simp: startsWith_def prefix_def)

lemma isSegmentLine_Nil: "\<not> isSegmentLine []"
  by (simp add: isSegmentLine_def extensionAt_def)

lemma scanLine_neutral:
  assumes "\<not> startsWith l ''#EXTINF:''" and "startsWith l ''#'' \<or> \<not> isSegmentLine l"
  shows "snd (scanLine b (i, segs, c) l) = (segs, c)"
  using assms by (auto simp: Let_def scanLine.simps)

lemma scanLine_directive:
  assumes "startsWith d ''#EXTINF:''"
  shows "snd (scanLine b (i, segs, c) d) = (segs, parseDuration d)"
proof -
  have "startsWith d ''#''" using assms by (rule startsWith_hash)
  moreover have "d \<noteq> []" using assms by (auto simp: startsWith_def)
  ultimately show ?thesis using assms by (simp add: Let_def scanLine.simps)
qed

lemma scanLine_segment:
  assumes "\<not> startsWith s ''#''" and "isSegmentLine s"
  shows "scanLine b (i, segs, c) s =
           (i, segs @ [\<lparr>url = resolveUrl b s, durationMs = c\<rparr>], Fin 6000)"
proof -
  have "s \<noteq> []" using assms(2) isSegmentLine_Nil by auto
  moreover have "\<not> startsWith s ''#EXT-X-MAP:''" "\<not> startsWith s ''#EXTINF:''"
    using assms(1) startsWith_hash by blast+
  ultimately show ?thesis using assms by (simp add: Let_def scanLine.simps)
qed

lemma scanLines_append:
  "scanLines b st (xs @ ys) = scanLines b (scanLines b st xs) ys"
  by (simp add: scanLines_def)

lemma scanLines_Cons: "scanLines b st (x # xs) = scanLines b (scanLine b st x) xs"
  by (simp add: scanLines_def)

lemma scanLines_Nil: "scanLines b st [] = st"
  by (simp add: scanLines_def)

lemma scanLines_neutral:
  assumes "\<forall>l \<in> set ls. \<not> startsWith l ''#EXTINF:'' \<and> (startsWith l ''#'' \<or> \<not> isSegmentLine l)"
  shows "snd (scanLines b (i, segs, c) ls) = (segs, c)"
  using assms
proof (induction ls arbitrary: i)
  case Nil
  then show ?case by (simp add: scanLines_Nil)
next
  case (Cons l ls)
  obtain i' where "scanLine b (i, segs, c) l = (i', segs, c)"
    using scanLine_neutral[of l b i segs c] Cons.prems
    by (cases "scanLine b (i, segs, c) l") auto
  then show ?case using Cons by (simp add: scanLines_Cons)
qed

text \<open>A line that is not a segment line leaves the segments as they are; the pending
  duration after a run of such lines is that of the last duration directive among them.\<close>

lemma scanLine_other:
  assumes "startsWith l ''#'' \<or> \<not> isSegmentLine l"
  shows "snd (scanLine b (i, segs, c) l) =
           (segs, if startsWith l ''#EXTINF:'' then parseDuration l else c)"
proof (cases "startsWith l ''#EXTINF:''")
  case True
  then show ?thesis using scanLine_directive[of l b i segs c] by simp
next
  case False
  then show ?thesis using scanLine_neutral[of l b i segs c] assms by simp
qed

lemma scanLines_pending:
  assumes "\<forall>l \<in> set ls. startsWith l ''#'' \<or> \<not> isSegmentLine l"
  shows "snd (scanLines b (i, segs, c) ls) =
           (segs, case filter (\<lambda>l. startsWith l ''#EXTINF:'') ls of [] \<Rightarrow> c
                  | e # es \<Rightarrow> parseDuration (last (e # es)))"
  using assms
proof (induction ls arbitrary: i c)
  case Nil
  then show ?case by (simp add: scanLines_Nil)
next
  case (Cons l ls)
  let ?c = "if startsWith l ''#EXTINF:'' then parseDuration l else c"
  obtain i' where "scanLine b (i, segs, c) l = (i', segs, ?c)"
    using scanLine_other[of l b i segs c] Cons.prems
    by (cases "scanLine b (i, segs, c) l") auto
  moreover have "snd (scanLines b (i', segs, ?c) ls) =
           (segs, case filter (\<lambda>l. startsWith l ''#EXTINF:'') ls of [] \<Rightarrow> ?c
                  | e # es \<Rightarrow> parseDuration (last (e # es)))"
    using Cons.prems by (intro Cons.IH) simp
  ultimately show ?case by (simp add: scanLines_Cons split: list.splits)
qed

text \<open>The segments and the pending duration do not depend on the init segment, and the
  segments found are appended to those present.\<close>

lemma scanLine_shift:
  "snd (scanLine b (i, segs, c) l) =
     (segs @ fst (snd (scanLine b (None, [], c) l)), snd (snd (scanLine b (None, [], c) l)))"
  by (simp add: Let_def scanLine.simps)

lemma scanLines_shift:
  "snd (scanLines b (i, segs, c) ls) =
     (segs @ fst (snd (scanLines b (None, [], c) ls)), snd (snd (scanLines b (None, [], c) ls)))"
proof (induction ls arbitrary: i segs c)
  case Nil
  then show ?case by (simp add: scanLines_Nil)
next
  case (Cons l ls)
  obtain i1 s1 c1 where st1: "scanLine b (i, segs, c) l = (i1, s1, c1)"
    by (cases "scanLine b (i, segs, c) l") auto
  obtain i2 s2 c2 where st2: "scanLine b (None, [], c) l = (i2, s2, c2)"
    by (cases "scanLine b (None, [], c) l") auto
  from scanLine_shift[of b i segs c l] st1 st2 have eq: "s1 = segs @ s2" "c1 = c2" by simp_all
  have "snd (scanLines b (i1, s1, c1) ls) =
          (s1 @ fst (snd (scanLines b (None, [], c1) ls)), snd (snd (scanLines b (None, [], c1) ls)))"
    by (rule Cons.IH)
  moreover have "snd (scanLines b (i2, s2, c2) ls) =
          (s2 @ fst (snd (scanLines b (None, [], c2) ls)), snd (snd (scanLines b (None, [], c2) ls)))"
    by (rule Cons.IH)
  ultimately show ?case using st1 st2 eq by (simp add: scanLines_Cons)
qed

lemma segments_parseStreamPlaylist:
  "segments (parseStreamPlaylist u ls) = fst (snd (scanLines (getBaseUrl u) (None, [], Fin 6000) ls))"
  by (simp add: parseStreamPlaylist_def split: prod.splits)

lemma parseDuration_truthy: "parseDuration l \<noteq> NaN \<and> parseDuration l \<noteq> Fin 0"
  by (simp add: parseDuration_def js_or_def truthy_def Let_def)

lemma math_round_integral:
  "math_round x = NaN \<or> math_round x = PosInf \<or> math_round x = NegInf \<or>
   (\<exists>k::int. math_round x = Fin (of_int k))"
  by (cases x) auto

lemma parseDuration_integral:
  "parseDuration l = PosInf \<or> parseDuration l = NegInf \<or>
   (\<exists>k::int. parseDuration l = Fin (of_int k))"
proof -
  define x where "x = js_times (parseFloat (split_first (substringFrom l 8) CHR '','')) (Fin 1000)"
  have pd: "parseDuration l = js_or (math_round x) (Fin 6000)"
    by (simp add: parseDuration_def x_def)
  have "Fin 6000 = Fin (of_int 6000)" by simp
  then have "\<exists>k::int. Fin 6000 = Fin (of_int k)" by blast
  then show ?thesis
    using math_round_integral[of x] unfolding pd js_or_def truthy_def by auto
qed

lemma pow2_pos: "0 < pow2 k"
  by (simp add: pow2_def)

lemma pow10_pos: "0 < pow10 k"
  by (simp add: pow10_def)

lemma roundHalfEven_nonneg: "0 \<le> m \<Longrightarrow> 0 \<le> roundHalfEven m"
  by (auto simp: roundHalfEven_def Let_def)

lemma round64pos_notNegative: "0 < a \<Longrightarrow> notNegative (round64pos a)"
proof -
  assume a: "0 < a"
  define p where "p = max (floorLog2 a - 52) (- 1074)"
  have "0 \<le> a / pow2 p" using a pow2_pos[of p] by simp
  then have "0 \<le> roundHalfEven (a / pow2 p)" by (rule roundHalfEven_nonneg)
  then have "0 \<le> rat_of_int (roundHalfEven (a / pow2 p)) * pow2 p"
    using pow2_pos[of p] by simp
  then show ?thesis by (simp add: round64pos_def Let_def p_def)
qed

lemma round64_notNegative: "0 \<le> q \<Longrightarrow> notNegative (round64 q)"
  by (auto simp: round64_def round64pos_notNegative)

lemma parseUnsigned_notNegative: "notNegative (parseUnsigned s)"
proof -
  have "0 \<le> rat_of_nat n / 10 ^ k * pow10 e" for n k e
    using pow10_pos[of e] by simp
  then show ?thesis
    by (simp add: parseUnsigned_def Let_def round64_notNegative)
qed

lemma parseFloat_notNegative:
  "\<not> startsWith (dropWhile isWhiteSpace s) ''-'' \<Longrightarrow> notNegative (parseFloat s)"
  by (auto simp: parseFloat_def startsWith_def parseUnsigned_notNegative split: list.splits)

lemma js_times_notNegative:
  "notNegative x \<Longrightarrow> 0 \<le> c \<Longrightarrow> notNegative (js_times x (Fin c))"
  by (cases x) (auto simp: round64_notNegative)

lemma math_round_notNegative: "notNegative x \<Longrightarrow> notNegative (math_round x)"
  by (cases x) auto

lemma minus_before_comma:
  "startsWith (dropWhile isWhiteSpace (split_first t CHR '','')) ''-''
     \<longleftrightarrow> startsWith (dropWhile isWhiteSpace t) ''-''"
  by (induction t) (auto simp: split_first_def startsWith_def isWhiteSpace_def)

lemma parseDuration_notNegative:
  assumes "\<not> startsWith (dropWhile isWhiteSpace (substringFrom l 8)) ''-''"
  shows "notNegative (parseDuration l)"
proof -
  define x where "x = js_times (parseFloat (split_first (substringFrom l 8) CHR '','')) (Fin 1000)"
  have "notNegative (parseFloat (split_first (substringFrom l 8) CHR '',''))"
    using assms by (intro parseFloat_notNegative) (simp add: minus_before_comma)
  then have "notNegative (math_round x)"
    unfolding x_def by (intro math_round_notNegative js_times_notNegative) simp_all
  moreover have "parseDuration l = js_or (math_round x) (Fin 6000)"
    by (simp add: parseDuration_def x_def)
  ultimately show ?thesis by (simp add: js_or_def)
qed

lemma scanLine_durations:
  assumes "P (Fin 6000)" and "startsWith l ''#EXTINF:'' \<longrightarrow> P (parseDuration l)"
    and "P c" and "\<forall>g \<in> set segs. P (durationMs g)"
  shows "P (snd (snd (scanLine b (i, segs, c) l))) \<and>
         (\<forall>g \<in> set (fst (snd (scanLine b (i, segs, c) l))). P (durationMs g))"
  using assms by (auto simp: scanLine.simps Let_def)

lemma scanLines_durations:
  assumes "P (Fin 6000)" and "\<forall>l \<in> set ls. startsWith l ''#EXTINF:'' \<longrightarrow> P (parseDuration l)"
    and "P c" and "\<forall>g \<in> set segs. P (durationMs g)"
  shows "P (snd (snd (scanLines b (i, segs, c) ls))) \<and>
         (\<forall>g \<in> set (fst (snd (scanLines b (i, segs, c) ls))). P (durationMs g))"
  using assms
proof (induction ls arbitrary: i segs c)
  case Nil
  then show ?case by (simp add: scanLines_def)
next
  case (Cons l ls)
  obtain i1 s1 c1 where st1: "scanLine b (i, segs, c) l = (i1, s1, c1)"
    by (cases "scanLine b (i, segs, c) l") auto
  have "P c1 \<and> (\<forall>g \<in> set s1. P (durationMs g))"
    using scanLine_durations[of P l c segs b i] Cons.prems st1 by simp
  then have "P (snd (snd (scanLines b (i1, s1, c1) ls))) \<and>
         (\<forall>g \<in> set (fst (snd (scanLines b (i1, s1, c1) ls))). P (durationMs g))"
    using Cons.prems by (intro Cons.IH) auto
  then show ?case using st1 by (simp add: scanLines_def)
qed

lemma segments_durations:
  assumes "P (Fin 6000)" and "\<forall>l \<in> set ls. startsWith l ''#EXTINF:'' \<longrightarrow> P (parseDuration l)"
  shows "\<forall>g \<in> set (segments (parseStreamPlaylist u ls)). P (durationMs g)"
proof -
  have "segments (parseStreamPlaylist u ls) = fst (snd (scanLines (getBaseUrl u) (None, [], Fin 6000) ls))"
    by (simp add: parseStreamPlaylist_def split: prod.splits)
  then show ?thesis
    using scanLines_durations[of P ls "Fin 6000" "[]" "getBaseUrl u" None] assms by simp
qed

lemmas line_defs = startsWith_def isSegmentLine_def isPlaylistLine_def extensionAt_def
  toLowerAscii_def getBaseUrl_def resolveUrl_def split_first_def substring_def indexOfFrom_def

text \<open>
  Claim C2, as it is stated: the value of a duration directive applies to the next
  line that is not a comment, and the pending duration is 6000 again after that line.
  It fails on a playlist with a line that is neither a comment nor a segment between
  the directive and the segment: the line \<^verbatim>\<open>notes.txt\<close> is skipped, and the segment after
  it still carries the 4000 ms of the directive.
\<close>

theorem duration_survives_other_line:
  "\<not> startsWith ''notes.txt'' ''#''
   \<and> segments (parseStreamPlaylist ''https://h/a/p.m3u8''
        [''#EXTINF:4.0,first'', ''notes.txt'', ''seg0.ts''])
       = [\<lparr>url = ''https://h/a/seg0.ts'', durationMs = Fin 4000\<rparr>]"
proof -
  have dur: "parseDuration ''#EXTINF:4.0,first'' = Fin 4000" by (simp add: number_defs)
  show ?thesis
    by (simp add: parseStreamPlaylist_def scanLines_def scanLine.simps line_defs dur)
qed

text \<open>
  Claim C2, amended: the value of a duration directive applies to the next segment
  line after it, that is the next line that is not a comment and matches the segment
  pattern, unless another duration directive stands between the two: the segment line
  carries the value of the last duration directive before it. The other lines in
  between, which are not segment lines, neither use nor reset the pending duration.
  After the segment line the pending duration is 6000 ms again: the rest of the
  playlist is scanned as a playlist of its own, and the next segment line, with no
  duration directive between the two segment lines, carries 6000 ms. The playlist may
  start and end with any lines: the segments before the directive and after the last
  segment line named are those of these parts alone. In the statement, \<open>d\<close> is a duration
  directive, \<open>mid\<close> holds the lines between it and the segment line \<open>s1\<close>, and the
  directive that counts is the last one among \<open>d\<close> and the lines of \<open>mid\<close>: it is \<open>d\<close>
  itself when \<open>mid\<close> has no duration directive.
\<close>

theorem duration_applies_to_next_segment:
  assumes "startsWith d ''#EXTINF:''"
    and "\<forall>l \<in> set mid. startsWith l ''#'' \<or> \<not> isSegmentLine l"
    and "\<not> startsWith s1 ''#'' \<and> isSegmentLine s1"
  shows "segments (parseStreamPlaylist u (pre @ [d] @ mid @ [s1] @ post)) =
           segments (parseStreamPlaylist u pre)
           @ [\<lparr>url = resolveUrl (getBaseUrl u) s1,
               durationMs = parseDuration (last (filter (\<lambda>l. startsWith l ''#EXTINF:'') (d # mid)))\<rparr>]
           @ segments (parseStreamPlaylist u post)
       \<and> ((\<forall>l \<in> set mid2. \<not> startsWith l ''#EXTINF:'' \<and> (startsWith l ''#'' \<or> \<not> isSegmentLine l))
            \<and> \<not> startsWith s2 ''#'' \<and> isSegmentLine s2
          \<longrightarrow> segments (parseStreamPlaylist u (pre @ [d] @ mid @ [s1] @ mid2 @ [s2] @ post)) =
                segments (parseStreamPlaylist u pre)
                @ [\<lparr>url = resolveUrl (getBaseUrl u) s1,
                    durationMs = parseDuration (last (filter (\<lambda>l. startsWith l ''#EXTINF:'') (d # mid)))\<rparr>,
                   \<lparr>url = resolveUrl (getBaseUrl u) s2, durationMs = Fin 6000\<rparr>]
                @ segments (parseStreamPlaylist u post))"
proof -
  define b where "b = getBaseUrl u"
  define v where "v = parseDuration (last (filter (\<lambda>l. startsWith l ''#EXTINF:'') (d # mid)))"
  obtain i0 g0 c0 where st0: "scanLines b (None, [], Fin 6000) pre = (i0, g0, c0)"
    by (cases "scanLines b (None, [], Fin 6000) pre") auto
  have "startsWith d ''#''" using assms(1) by (rule startsWith_hash)
  then have dm: "\<forall>l \<in> set (d # mid). startsWith l ''#'' \<or> \<not> isSegmentLine l"
    using assms(2) by simp
  obtain i2 where st2: "scanLines b (i0, g0, c0) (d # mid) = (i2, g0, v)"
    using scanLines_pending[OF dm, of b i0 g0 c0] assms(1)
    by (cases "scanLines b (i0, g0, c0) (d # mid)") (auto simp: v_def)
  let ?g3 = "g0 @ [\<lparr>url = resolveUrl b s1, durationMs = v\<rparr>]"
  have st3: "scanLine b (i2, g0, v) s1 = (i2, ?g3, Fin 6000)"
    by (rule scanLine_segment) (simp_all add: assms(3))
  have first: "fst (snd (scanLines b (None, [], Fin 6000) (pre @ [d] @ mid @ [s1] @ rest)))
          = ?g3 @ fst (snd (scanLines b (None, [], Fin 6000) rest))" for rest
  proof -
    have "scanLines b (None, [], Fin 6000) (pre @ [d] @ mid @ [s1] @ rest)
            = scanLines b (None, [], Fin 6000) (pre @ (d # mid) @ s1 # rest)"
      by simp
    also have "\<dots> = scanLines b (scanLines b (scanLines b (None, [], Fin 6000) pre) (d # mid)) (s1 # rest)"
      by (simp only: scanLines_append)
    also have "\<dots> = scanLines b (i2, g0, v) (s1 # rest)"
      by (simp only: st0 st2)
    also have "\<dots> = scanLines b (i2, ?g3, Fin 6000) rest"
      by (simp only: scanLines_Cons st3)
    finally have "scanLines b (None, [], Fin 6000) (pre @ [d] @ mid @ [s1] @ rest)
            = scanLines b (i2, ?g3, Fin 6000) rest" .
    then show ?thesis using scanLines_shift[of b i2 ?g3 "Fin 6000" rest] by simp
  qed
  have second: "fst (snd (scanLines b (None, [], Fin 6000) (mid2 @ [s2] @ post)))
          = \<lparr>url = resolveUrl b s2, durationMs = Fin 6000\<rparr>
            # fst (snd (scanLines b (None, [], Fin 6000) post))"
    if m2: "\<forall>l \<in> set mid2. \<not> startsWith l ''#EXTINF:'' \<and> (startsWith l ''#'' \<or> \<not> isSegmentLine l)"
      and s2: "\<not> startsWith s2 ''#'' \<and> isSegmentLine s2"
  proof -
    obtain i4 where st4: "scanLines b (None, [], Fin 6000) mid2 = (i4, [], Fin 6000)"
      using scanLines_neutral[OF m2, of b None "[]" "Fin 6000"]
      by (cases "scanLines b (None, [], Fin 6000) mid2") auto
    let ?g5 = "[\<lparr>url = resolveUrl b s2, durationMs = Fin 6000\<rparr>]"
    have st5: "scanLine b (i4, [], Fin 6000) s2 = (i4, [] @ ?g5, Fin 6000)"
      by (rule scanLine_segment) (simp_all add: s2)
    have "scanLines b (None, [], Fin 6000) (mid2 @ [s2] @ post)
            = scanLines b (i4, ?g5, Fin 6000) post"
      using st5 by (simp add: scanLines_append scanLines_Cons scanLines_Nil st4)
    then show ?thesis using scanLines_shift[of b i4 ?g5 "Fin 6000" post] by simp
  qed
  have A: "segments (parseStreamPlaylist u (pre @ [d] @ mid @ [s1] @ post)) =
           segments (parseStreamPlaylist u pre)
           @ [\<lparr>url = resolveUrl (getBaseUrl u) s1, durationMs = v\<rparr>]
           @ segments (parseStreamPlaylist u post)"
    using first[of post] st0 by (simp add: segments_parseStreamPlaylist b_def)
  have B: "segments (parseStreamPlaylist u (pre @ [d] @ mid @ [s1] @ mid2 @ [s2] @ post)) =
                segments (parseStreamPlaylist u pre)
                @ [\<lparr>url = resolveUrl (getBaseUrl u) s1, durationMs = v\<rparr>,
                   \<lparr>url = resolveUrl (getBaseUrl u) s2, durationMs = Fin 6000\<rparr>]
                @ segments (parseStreamPlaylist u post)"
    if "\<forall>l \<in> set mid2. \<not> startsWith l ''#EXTINF:'' \<and> (startsWith l ''#'' \<or> \<not> isSegmentLine l)"
      and "\<not> startsWith s2 ''#'' \<and> isSegmentLine s2"
    using first[of "mid2 @ [s2] @ post"] second[OF that] st0
    by (simp add: segments_parseStreamPlaylist b_def)
  show ?thesis using A B unfolding v_def by blast
qed

theorem duration_applies_to_next_segment_witness:
  "startsWith ''#EXTINF:4.0,first'' ''#EXTINF:''
   \<and> startsWith ''#EXTINF:1,'' ''#EXTINF:''
   \<and> \<not> startsWith ''seg0.ts'' ''#'' \<and> isSegmentLine ''seg0.ts''
   \<and> \<not> startsWith ''seg1.ts'' ''#'' \<and> isSegmentLine ''seg1.ts''
   \<and> segments (parseStreamPlaylist ''https://h/a/p.m3u8''
        [''#EXTM3U'', ''#EXTINF:4.0,first'', ''#EXT-X-DISCONTINUITY'', ''seg0.ts'',
         ''notes.txt'', ''seg1.ts'', ''#EXT-X-ENDLIST''])
       = [\<lparr>url = ''https://h/a/seg0.ts'', durationMs = Fin 4000\<rparr>,
          \<lparr>url = ''https://h/a/seg1.ts'', durationMs = Fin 6000\<rparr>]
   \<and> segments (parseStreamPlaylist ''https://h/a/p.m3u8''
        [''#EXTINF:1,'', ''#EXTINF:2,'', ''seg0.ts''])
       = [\<lparr>url = ''https://h/a/seg0.ts'', durationMs = Fin 2000\<rparr>]"
proof -
  have d: "startsWith ''#EXTINF:4.0,first'' ''#EXTINF:''" by (simp add: startsWith_def)
  have d1: "startsWith ''#EXTINF:1,'' ''#EXTINF:''" by (simp add: startsWith_def)
  have d2: "startsWith ''#EXTINF:2,'' ''#EXTINF:''" by (simp add: startsWith_def)
  have o1: "\<not> startsWith ''#EXT-X-DISCONTINUITY'' ''#EXTINF:''" by (simp add: startsWith_def)
  have s1: "\<not> startsWith ''seg0.ts'' ''#'' \<and> isSegmentLine ''seg0.ts''"
    by (simp add: line_defs)
  have s2: "\<not> startsWith ''seg1.ts'' ''#'' \<and> isSegmentLine ''seg1.ts''"
    by (simp add: line_defs)
  have m1: "\<forall>l \<in> set [''#EXT-X-DISCONTINUITY'']. startsWith l ''#'' \<or> \<not> isSegmentLine l"
    by (simp add: line_defs)
  have m1': "\<forall>l \<in> set [''#EXTINF:2,'']. startsWith l ''#'' \<or> \<not> isSegmentLine l"
    by (simp add: line_defs)
  have m2: "\<forall>l \<in> set [''notes.txt'']. \<not> startsWith l ''#EXTINF:'' \<and> (startsWith l ''#'' \<or> \<not> isSegmentLine l)"
    by (simp add: line_defs)
  have pre: "segments (parseStreamPlaylist ''https://h/a/p.m3u8'' [''#EXTM3U'']) = []"
    by (simp add: parseStreamPlaylist_def scanLines_def scanLine.simps line_defs)
  have post: "segments (parseStreamPlaylist ''https://h/a/p.m3u8'' [''#EXT-X-ENDLIST'']) = []"
    by (simp add: parseStreamPlaylist_def scanLines_def scanLine.simps line_defs)
  have emp: "segments (parseStreamPlaylist ''https://h/a/p.m3u8'' []) = []"
    by (simp add: parseStreamPlaylist_def scanLines_def)
  have dur: "parseDuration ''#EXTINF:4.0,first'' = Fin 4000" by (simp add: number_defs)
  have dur2: "parseDuration ''#EXTINF:2,'' = Fin 2000" by (simp add: number_defs)
  have u1: "resolveUrl (getBaseUrl ''https://h/a/p.m3u8'') ''seg0.ts'' = ''https://h/a/seg0.ts''"
    by (simp add: line_defs)
  have u2: "resolveUrl (getBaseUrl ''https://h/a/p.m3u8'') ''seg1.ts'' = ''https://h/a/seg1.ts''"
    by (simp add: line_defs)
  have two: "segments (parseStreamPlaylist ''https://h/a/p.m3u8''
        [''#EXTM3U'', ''#EXTINF:4.0,first'', ''#EXT-X-DISCONTINUITY'', ''seg0.ts'',
         ''notes.txt'', ''seg1.ts'', ''#EXT-X-ENDLIST''])
       = [\<lparr>url = ''https://h/a/seg0.ts'', durationMs = Fin 4000\<rparr>,
          \<lparr>url = ''https://h/a/seg1.ts'', durationMs = Fin 6000\<rparr>]"
    using duration_applies_to_next_segment[OF d m1 s1, of "''https://h/a/p.m3u8''"
        "[''#EXTM3U'']" "[''#EXT-X-ENDLIST'']" "[''notes.txt'']" "''seg1.ts''"] m2 s2
    by (simp add: pre post dur u1 u2 d o1)
  have one: "segments (parseStreamPlaylist ''https://h/a/p.m3u8''
        [''#EXTINF:1,'', ''#EXTINF:2,'', ''seg0.ts''])
       = [\<lparr>url = ''https://h/a/seg0.ts'', durationMs = Fin 2000\<rparr>]"
    using duration_applies_to_next_segment[OF d1 m1' s1, of "''https://h/a/p.m3u8''"
        "[]" "[]" "[]" "''seg1.ts''"]
    by (simp add: emp dur2 u1 d1 d2)
  show ?thesis using d d1 s1 s2 one two by simp
qed

text \<open>
  Claim C9, as it is stated: every segment has a duration that is a non-negative
  integer. It fails on the directive \<^verbatim>\<open>#EXTINF:-5,\<close>: \<^verbatim>\<open>parseFloat\<close> reads the sign,
  \<open>-5000\<close> is truthy, and the segment carries it.
\<close>

theorem negative_duration_kept:
  "segments (parseStreamPlaylist ''https://h/a/p.m3u8'' [''#EXTINF:-5,'', ''seg0.ts''])
       = [\<lparr>url = ''https://h/a/seg0.ts'', durationMs = Fin (- 5000)\<rparr>]"
proof -
  have dur: "parseDuration ''#EXTINF:-5,'' = Fin (- 5000)" by (simp add: number_defs)
  show ?thesis
    by (simp add: parseStreamPlaylist_def scanLines_def scanLine.simps line_defs dur)
qed

text \<open>
  Claim C9, amended: the duration of every segment is neither NaN nor zero; it is an
  integer, the positive infinity or the negative infinity; it is the default 6000 or
  the value that \<^verbatim>\<open>parseDuration\<close> gives for a duration directive of the playlist, which
  is \<^verbatim>\<open>Math.round(parseFloat(value) * 1000) || 6000\<close>; and when no duration directive of
  the playlist has a minus sign as the first character after \<^verbatim>\<open>#EXTINF:\<close> and the white
  space that may follow it, the duration is a positive integer or the positive infinity.
\<close>

theorem segment_durations:
  "\<forall>g \<in> set (segments (parseStreamPlaylist u ls)).
      durationMs g \<noteq> NaN \<and> durationMs g \<noteq> Fin 0
    \<and> (durationMs g = PosInf \<or> durationMs g = NegInf \<or> (\<exists>k::int. durationMs g = Fin (of_int k)))
    \<and> (durationMs g = Fin 6000 \<or>
         (\<exists>l \<in> set ls. startsWith l ''#EXTINF:'' \<and> durationMs g = parseDuration l))
    \<and> ((\<forall>l \<in> set ls. startsWith l ''#EXTINF:'' \<longrightarrow>
            \<not> startsWith (dropWhile isWhiteSpace (substringFrom l 8)) ''-'')
         \<longrightarrow> durationMs g = PosInf \<or> (\<exists>k::int. 0 < k \<and> durationMs g = Fin (of_int k)))"
proof -
  define P1 where "P1 = (\<lambda>x. x \<noteq> NaN \<and> x \<noteq> Fin 0
    \<and> (x = PosInf \<or> x = NegInf \<or> (\<exists>k::int. x = Fin (of_int k)))
    \<and> (x = Fin 6000 \<or> (\<exists>l \<in> set ls. startsWith l ''#EXTINF:'' \<and> x = parseDuration l)))"
  have six: "\<exists>k::int. Fin 6000 = Fin (of_int k)"
  proof
    show "Fin 6000 = Fin (of_int 6000)" by simp
  qed
  have "P1 (Fin 6000)" using six by (simp add: P1_def)
  moreover have "\<forall>l \<in> set ls. startsWith l ''#EXTINF:'' \<longrightarrow> P1 (parseDuration l)"
    using parseDuration_truthy parseDuration_integral by (auto simp: P1_def)
  ultimately have a: "\<forall>g \<in> set (segments (parseStreamPlaylist u ls)). P1 (durationMs g)"
    by (rule segments_durations)
  have b: "\<forall>g \<in> set (segments (parseStreamPlaylist u ls)). notNegative (durationMs g)"
    if "\<forall>l \<in> set ls. startsWith l ''#EXTINF:'' \<longrightarrow>
            \<not> startsWith (dropWhile isWhiteSpace (substringFrom l 8)) ''-''"
    using that by (intro segments_durations) (auto simp: parseDuration_notNegative)
  have c: "x = PosInf \<or> (\<exists>k::int. 0 < k \<and> x = Fin (of_int k))" if "P1 x" "notNegative x" for x
  proof -
    from that(1) consider "x = PosInf" | "x = NegInf" | k :: int where "x = Fin (of_int k)" "x \<noteq> Fin 0"
      by (auto simp: P1_def)
    then show ?thesis
    proof cases
      case 3
      with that(2) have "0 < k" by (cases "k = 0") auto
      with 3 show ?thesis by blast
    qed (use that(2) in auto)
  qed
  show ?thesis
  proof
    fix g assume g: "g \<in> set (segments (parseStreamPlaylist u ls))"
    with a have "P1 (durationMs g)" by blast
    moreover have "durationMs g = PosInf \<or> (\<exists>k::int. 0 < k \<and> durationMs g = Fin (of_int k))"
      if "\<forall>l \<in> set ls. startsWith l ''#EXTINF:'' \<longrightarrow>
            \<not> startsWith (dropWhile isWhiteSpace (substringFrom l 8)) ''-''"
      using c[OF \<open>P1 (durationMs g)\<close>] b[OF that] g by blast
    ultimately show "durationMs g \<noteq> NaN \<and> durationMs g \<noteq> Fin 0
    \<and> (durationMs g = PosInf \<or> durationMs g = NegInf \<or> (\<exists>k::int. durationMs g = Fin (of_int k)))
    \<and> (durationMs g = Fin 6000 \<or>
         (\<exists>l \<in> set ls. startsWith l ''#EXTINF:'' \<and> durationMs g = parseDuration l))
    \<and> ((\<forall>l \<in> set ls. startsWith l ''#EXTINF:'' \<longrightarrow>
            \<not> startsWith (dropWhile isWhiteSpace (substringFrom l 8)) ''-'')
         \<longrightarrow> durationMs g = PosInf \<or> (\<exists>k::int. 0 < k \<and> durationMs g = Fin (of_int k)))"
      unfolding P1_def by blast
  qed
qed

theorem segment_durations_witness:
  "segments (parseStreamPlaylist ''https://h/a/p.m3u8'' [''#EXTINF:2.5,'', ''seg0.ts'', ''seg1.ts''])
       = [\<lparr>url = ''https://h/a/seg0.ts'', durationMs = Fin 2500\<rparr>,
          \<lparr>url = ''https://h/a/seg1.ts'', durationMs = Fin 6000\<rparr>]
   \<and> \<not> startsWith (dropWhile isWhiteSpace (substringFrom ''#EXTINF:2.5,'' 8)) ''-''
   \<and> (\<exists>k::int. 0 < k \<and> Fin 2500 = Fin (of_int k))
   \<and> (\<exists>k::int. 0 < k \<and> Fin 6000 = Fin (of_int k))"
proof -
  let ?ls = "[''#EXTINF:2.5,'', ''seg0.ts'', ''seg1.ts'']"
  have dur: "parseDuration ''#EXTINF:2.5,'' = Fin 2500" by (simp add: number_defs)
  have segs: "segments (parseStreamPlaylist ''https://h/a/p.m3u8'' ?ls)
       = [\<lparr>url = ''https://h/a/seg0.ts'', durationMs = Fin 2500\<rparr>,
          \<lparr>url = ''https://h/a/seg1.ts'', durationMs = Fin 6000\<rparr>]"
    by (simp add: parseStreamPlaylist_def scanLines_def scanLine.simps line_defs dur)
  have nominus: "\<forall>l \<in> set ?ls. startsWith l ''#EXTINF:'' \<longrightarrow>
            \<not> startsWith (dropWhile isWhiteSpace (substringFrom l 8)) ''-''"
    by (simp add: startsWith_def substringFrom_def isWhiteSpace_def)
  have "\<not> startsWith (dropWhile isWhiteSpace (substringFrom ''#EXTINF:2.5,'' 8)) ''-''"
    by (simp add: startsWith_def substringFrom_def isWhiteSpace_def)
  moreover from segment_durations[of "''https://h/a/p.m3u8''" ?ls] nominus
  have "(\<exists>k::int. 0 < k \<and> Fin 2500 = Fin (of_int k)) \<and> (\<exists>k::int. 0 < k \<and> Fin 6000 = Fin (of_int k))"
    unfolding segs by simp
  ultimately show ?thesis using segs by blast
qed

subsection \<open>URL resolution\<close>

lemma takeWhile_append_all:
  "\<forall>x \<in> set xs. P x \<Longrightarrow> takeWhile P (xs @ ys) = xs @ takeWhile P ys"
  by (induction xs) auto

lemma indexOf_char_fresh:
  "c \<notin> set a \<Longrightarrow> indexOf (a @ c # p @ b) (c # p) = Some (length a)"
proof -
  assume fresh: "c \<notin> set a"
  have "\<forall>j < length a. \<not> prefix (c # p) (drop j (a @ (c # p) @ b))"
  proof (intro allI impI)
    fix j assume j: "j < length a"
    then have "drop j (a @ (c # p) @ b) = a ! j # drop (Suc j) a @ (c # p) @ b"
      by (simp add: Cons_nth_drop_Suc)
    moreover have "a ! j \<noteq> c" using fresh j by auto
    ultimately show "\<not> prefix (c # p) (drop j (a @ (c # p) @ b))" by simp
  qed
  from indexOf_append_fresh[OF this] show ?thesis by simp
qed

lemma getBaseUrl_directory:
  assumes "takeWhile (\<lambda>c. c \<noteq> CHR ''?'') b = d @ ''/'' @ f" and "CHR ''/'' \<notin> set f"
  shows "getBaseUrl b = d @ ''/''"
  using assms lastIndexOf_append[of "CHR ''/''" f d]
  by (simp add: getBaseUrl_def split_first_def substring_def)

text \<open>
  Claim C6, as it is stated for every base URL: a reference that starts with a slash is
  joined to the scheme and authority of the base. It fails on a base URL without a
  path: \<^verbatim>\<open>getBaseUrl\<close> cuts \<^verbatim>\<open>https://host\<close> after the second slash of the scheme, no
  slash is left after the scheme to mark the end of the authority, and the reference is
  appended to \<^verbatim>\<open>https://\<close>.
\<close>

theorem resolveUrl_base_without_path:
  "resolveUrl (getBaseUrl ''https://host'') ''/media/seg0.ts'' = ''https:///media/seg0.ts''
   \<and> resolveUrl (getBaseUrl ''https://host'') ''/media/seg0.ts'' \<noteq> ''https://host/media/seg0.ts''"
  by (simp add: line_defs)

text \<open>
  Claim C6, amended: an absolute http(s) reference is returned unchanged; a reference
  that starts with a slash is joined to the scheme and authority of the base URL, the
  path of the base discarded, when the base URL has a path (a slash after its
  authority); any other reference is appended to the directory prefix of the base URL,
  the part up to and including the last slash before the query string. The scheme is
  free of colons, and scheme and authority are free of question marks.
\<close>

theorem resolveUrl_getBaseUrl:
  "(startsWith r ''http://'' \<or> startsWith r ''https://''
      \<longrightarrow> resolveUrl (getBaseUrl b) r = r)
   \<and> (startsWith r ''/'' \<and> b = sch @ ''://'' @ auth @ ''/'' @ rest
        \<and> CHR '':'' \<notin> set sch \<and> CHR ''?'' \<notin> set sch
        \<and> CHR ''/'' \<notin> set auth \<and> CHR ''?'' \<notin> set auth
      \<longrightarrow> resolveUrl (getBaseUrl b) r = sch @ ''://'' @ auth @ r)
   \<and> (\<not> startsWith r ''http://'' \<and> \<not> startsWith r ''https://'' \<and> \<not> startsWith r ''/''
        \<and> takeWhile (\<lambda>c. c \<noteq> CHR ''?'') b = d @ ''/'' @ f \<and> CHR ''/'' \<notin> set f
      \<longrightarrow> resolveUrl (getBaseUrl b) r = d @ ''/'' @ r)"
proof (intro conjI impI)
  assume "startsWith r ''http://'' \<or> startsWith r ''https://''"
  then show "resolveUrl (getBaseUrl b) r = r" by (simp add: resolveUrl_def)
next
  assume h: "\<not> startsWith r ''http://'' \<and> \<not> startsWith r ''https://'' \<and> \<not> startsWith r ''/''
        \<and> takeWhile (\<lambda>c. c \<noteq> CHR ''?'') b = d @ ''/'' @ f \<and> CHR ''/'' \<notin> set f"
  then have "getBaseUrl b = d @ ''/''" by (intro getBaseUrl_directory) auto
  with h show "resolveUrl (getBaseUrl b) r = d @ ''/'' @ r" by (simp add: resolveUrl_def)
next
  assume h: "startsWith r ''/'' \<and> b = sch @ ''://'' @ auth @ ''/'' @ rest
        \<and> CHR '':'' \<notin> set sch \<and> CHR ''?'' \<notin> set sch
        \<and> CHR ''/'' \<notin> set auth \<and> CHR ''?'' \<notin> set auth"
  define origin where "origin = sch @ ''://'' @ auth"
  define rest' where "rest' = takeWhile (\<lambda>c. c \<noteq> CHR ''?'') rest"
  have noq: "\<forall>x \<in> set (origin @ ''/''). x \<noteq> CHR ''?''"
    using h by (auto simp: origin_def)
  have "b = (origin @ ''/'') @ rest" using h by (simp add: origin_def)
  then have tw: "takeWhile (\<lambda>c. c \<noteq> CHR ''?'') b = origin @ ''/'' @ rest'"
    using takeWhile_append_all[OF noq, of rest] by (simp add: rest'_def)
  have "CHR ''/'' \<in> set (''/'' @ rest')" by simp
  then obtain y f where yf: "''/'' @ rest' = y @ CHR ''/'' # f" "CHR ''/'' \<notin> set f"
    using split_list_last by fast
  have tw': "takeWhile (\<lambda>c. c \<noteq> CHR ''?'') b = (origin @ y) @ ''/'' @ f"
    using tw yf(1) by simp
  have base: "getBaseUrl b = origin @ y @ ''/''"
    using getBaseUrl_directory[OF tw' yf(2)] by simp
  have ys: "\<exists>t. y @ ''/'' = CHR ''/'' # t"
    using yf(1) by (cases y) auto
  then obtain t where t: "y @ ''/'' = CHR ''/'' # t" by blast
  have base': "getBaseUrl b = sch @ CHR '':'' # ''//'' @ (auth @ CHR ''/'' # t)"
    using base t by (simp add: origin_def)
  have i1: "indexOf (getBaseUrl b) ''://'' = Some (length sch)"
    unfolding base' using indexOf_char_fresh[of "CHR '':''" sch "''//''" "auth @ CHR ''/'' # t"] h
    by simp
  have "drop (length sch + 3) (getBaseUrl b) = auth @ CHR ''/'' # [] @ t"
    unfolding base' by simp
  then have i2: "indexOfFrom (getBaseUrl b) ''/'' (length sch + 3) = Some (length auth + (length sch + 3))"
    using indexOf_char_fresh[of "CHR ''/''" auth "[]" t] h by (simp add: indexOfFrom_def)
  have "\<not> startsWith r ''http://'' \<and> \<not> startsWith r ''https://''"
    using h by (auto simp: startsWith_def prefix_def)
  moreover have "substring (getBaseUrl b) 0 (length auth + (length sch + 3)) = sch @ ''://'' @ auth"
  proof -
    have "getBaseUrl b = (sch @ ''://'' @ auth) @ CHR ''/'' # t" using base' by simp
    moreover have "length auth + (length sch + 3) = length (sch @ ''://'' @ auth)" by simp
    ultimately have "take (length auth + (length sch + 3)) (getBaseUrl b) = sch @ ''://'' @ auth"
      by (metis append_eq_conv_conj)
    moreover have "length auth + (length sch + 3) \<le> length (getBaseUrl b)"
      unfolding base' by simp
    ultimately show ?thesis by (simp add: substring_def min_absorb1)
  qed
  ultimately show "resolveUrl (getBaseUrl b) r = sch @ ''://'' @ auth @ r"
    using h i1 i2 by (simp add: resolveUrl_def)
qed

theorem resolveUrl_getBaseUrl_witness:
  "resolveUrl (getBaseUrl ''https://host/a/b/playlist.m3u8?x=1'') ''https://other/seg.ts''
      = ''https://other/seg.ts''
   \<and> resolveUrl (getBaseUrl ''https://host/a/b/playlist.m3u8?x=1'') ''/media/seg0.ts''
      = ''https://host/media/seg0.ts''
   \<and> resolveUrl (getBaseUrl ''https://host/a/b/playlist.m3u8?x=1'') ''seg0.ts''
      = ''https://host/a/b/seg0.ts''"
  using resolveUrl_getBaseUrl[of "''https://other/seg.ts''" "''https://host/a/b/playlist.m3u8?x=1''"]
    resolveUrl_getBaseUrl[of "''/media/seg0.ts''" "''https://host/a/b/playlist.m3u8?x=1''"
      "''https''" "''host''" "''a/b/playlist.m3u8?x=1''"]
    resolveUrl_getBaseUrl[of "''seg0.ts''" "''https://host/a/b/playlist.m3u8?x=1''" _ _ _
      "''https://host/a/b''" "''playlist.m3u8''"]
  by (simp add: startsWith_def)

subsection \<open>The decryptor on two tokens\<close>

text \<open>
  Two tokens with the offset digit 2, so that 18 characters are skipped. Their payloads
  are the one-block encryptions, under the key and the initialisation vector of the
  module, of \<^verbatim>\<open>/hls/a/b.m3u8\<close> and of \<^verbatim>\<open>hls/abc\<close>, each padded with NUL bytes.
\<close>

lemmas aes_defs = nextRoundKey_def xorBytes_def subByte_def sbox_def invSubByte_def inv_sbox_def
  xtime_def mul9_def mul11_def mul13_def mul14_def invShiftRows_def invSubBytes_def
  aesDecryptBlock_def

lemma roundKeysRev_KEY:
  "roundKeysRev KEY =
    [[30, 78, 31, 143, 173, 88, 202, 87, 3, 243, 12, 154, 90, 178, 85, 41],
     [171, 133, 114, 68, 179, 22, 213, 216, 174, 171, 198, 205, 89, 65, 89, 179],
     [55, 94, 129, 44, 24, 147, 167, 156, 29, 189, 19, 21, 247, 234, 159, 126],
     [236, 58, 254, 171, 47, 205, 38, 176, 5, 46, 180, 137, 234, 87, 140, 107],
     [26, 61, 102, 116, 195, 247, 216, 27, 42, 227, 146, 57, 239, 121, 56, 226],
     [130, 145, 223, 210, 217, 202, 190, 111, 233, 20, 74, 34, 197, 154, 170, 219],
     [139, 112, 70, 163, 91, 91, 97, 189, 48, 222, 244, 77, 44, 142, 224, 249],
     [208, 138, 203, 63, 208, 43, 39, 30, 107, 133, 149, 240, 28, 80, 20, 180],
     [215, 134, 208, 202, 0, 161, 236, 33, 187, 174, 178, 238, 119, 213, 129, 68],
     [244, 69, 124, 129, 215, 39, 60, 235, 187, 15, 94, 207, 204, 123, 51, 170],
     [103, 121, 49, 116, 35, 98, 64, 106, 108, 40, 98, 36, 119, 116, 109, 101]]"
  by (simp add: aes_defs KEY_def roundKeysRev_def)

lemmas decipher_defs = base64Decode_def unbase64_def decipher_def decipherUpdate_def
  decipherFinal_def roundKeysRev_KEY blocks16.simps IV_def aes_defs

lemmas clean_defs = cleanText_def utf8ToString_def trimCodes_def isWhiteSpaceCode_def
  char_of_eq_iff

lemma decipher_tokenA:
  "decipher (base64Decode (''NDkhLbnxRMO4a5WChP/AmA'' @ ''==''))
     = Inr [47, 104, 108, 115, 47, 97, 47, 98, 46, 109, 51, 117, 56, 0, 0, 0]"
  by (simp add: decipher_defs)

lemma decipher_tokenB:
  "decipher (base64Decode (''BmwMXCuvKO4PMGOia41zgg'' @ ''==''))
     = Inr [104, 108, 115, 47, 97, 98, 99, 0, 0, 0, 0, 0, 0, 0, 0, 0]"
  by (simp add: decipher_defs)

lemma cleanText_A:
  "cleanText [47, 104, 108, 115, 47, 97, 47, 98, 46, 109, 51, 117, 56, 0, 0, 0] = ''/hls/a/b.m3u8''"
  by (simp add: clean_defs)

lemma cleanText_B:
  "cleanText [104, 108, 115, 47, 97, 98, 99, 0, 0, 0, 0, 0, 0, 0, 0, 0] = ''hls/abc''"
  by (simp add: clean_defs)

lemma decryptResult_tokenA:
  "decryptResult ''2f6c1e0a9d3b7c5e48NDkhLbnxRMO4a5WChP/AmA''
     = Inr ''https://vodhlsgaana-ebw.akamaized.net/hls/a/b.m3u8''"
  using decipher_tokenA
  by (simp add: decryptResult_def parseOffset_def isDigit_def substringFrom_def cleanText_A
      extractHlsPath_def includes_str_def HLS_BASE_URL_def)

lemma decryptResult_tokenB:
  "decryptResult ''2f6c1e0a9d3b7c5e48BmwMXCuvKO4PMGOia41zgg'' = Inl PathMarkerNotFound"
  using decipher_tokenB
  by (simp add: decryptResult_def parseOffset_def isDigit_def substringFrom_def cleanText_B
      extractHlsPath_def includes_str_def HLS_BASE_URL_def)

subsection \<open>The exits of the decryptor\<close>

lemma extractHlsPath_cases:
  "(\<not> sublist ''/hls/'' t \<longrightarrow> extractHlsPath t = Inl PathMarkerNotFound)
   \<and> (sublist ''/hls/'' t \<longrightarrow>
        (\<exists>pre post. t = pre @ ''hls/'' @ post
           \<and> (\<forall>j < length pre. \<not> prefix ''hls/'' (drop j t))
           \<and> extractHlsPath t = Inr (HLS_BASE_URL @ ''hls/'' @ post)))"
proof (intro conjI impI)
  assume "\<not> sublist ''/hls/'' t"
  then show "extractHlsPath t = Inl PathMarkerNotFound"
    by (simp add: extractHlsPath_def includes_str_sublist)
next
  assume sl: "sublist ''/hls/'' t"
  then obtain a c where "t = a @ ''/hls/'' @ c" by (auto simp: sublist_def)
  then have "t = (a @ ''/'') @ ''hls/'' @ c" by simp
  then have "sublist ''hls/'' t" unfolding sublist_def by blast
  then obtain i where i: "indexOf t ''hls/'' = Some i"
    using indexOf_None_iff[of t "''hls/''"] by (cases "indexOf t ''hls/''") auto
  from indexOf_Some_decomp[OF i] obtain post where post: "drop i t = ''hls/'' @ post" "i \<le> length t"
    by blast
  have t: "t = take i t @ ''hls/'' @ post" using post(1) by (metis append_take_drop_id)
  have len: "length (take i t) = i" using post(2) by simp
  have first: "\<forall>j < length (take i t). \<not> prefix ''hls/'' (drop j t)"
    using indexOf_first[OF i] len by simp
  have "extractHlsPath t = Inr (HLS_BASE_URL @ ''hls/'' @ post)"
    using sl i post(1) by (simp add: extractHlsPath_def includes_str_sublist substringFrom_def)
  with t first show "\<exists>pre post. t = pre @ ''hls/'' @ post
           \<and> (\<forall>j < length pre. \<not> prefix ''hls/'' (drop j t))
           \<and> extractHlsPath t = Inr (HLS_BASE_URL @ ''hls/'' @ post)"
    by blast
qed

lemma extractHlsPath_Inr: "extractHlsPath t = Inr u \<Longrightarrow> \<exists>p. u = HLS_BASE_URL @ p"
  by (auto simp: extractHlsPath_def split: if_splits option.splits)

lemma decryptResult_Inr: "decryptResult s = Inr u \<Longrightarrow> \<exists>p. u = HLS_BASE_URL @ p"
  by (auto simp: decryptResult_def Let_def split: option.splits sum.splits dest: extractHlsPath_Inr)

lemma decipher_Nil: "decipher [] = Inr []"
  by (simp add: decipher_def decipherUpdate_def decipherFinal_def blocks16.simps)

lemma cleanText_Nil: "cleanText [] = []"
  by (simp add: cleanText_def utf8ToString_def trimCodes_def)

text \<open>
  Claim C3, as it is stated: the decryptor fails when the cleaned text lacks the marker
  of four characters \<^verbatim>\<open>hls/\<close>, and otherwise returns the base URL with the text from
  the first marker on. It fails on a token whose cleaned text is \<^verbatim>\<open>hls/abc\<close>: the
  marker is there, at position 0, but the test of the code is for the five characters
  \<^verbatim>\<open>/hls/\<close>, and the decryptor returns the empty string.
\<close>

theorem marker_without_leading_slash:
  "parseOffset ''2f6c1e0a9d3b7c5e48BmwMXCuvKO4PMGOia41zgg'' = Some 2
   \<and> decipher (base64Decode (substringFrom ''2f6c1e0a9d3b7c5e48BmwMXCuvKO4PMGOia41zgg'' (2 + 16) @ ''==''))
        = Inr [104, 108, 115, 47, 97, 98, 99, 0, 0, 0, 0, 0, 0, 0, 0, 0]
   \<and> cleanText [104, 108, 115, 47, 97, 98, 99, 0, 0, 0, 0, 0, 0, 0, 0, 0] = ''hls/abc''
   \<and> indexOf ''hls/abc'' ''hls/'' = Some 0
   \<and> decryptResult ''2f6c1e0a9d3b7c5e48BmwMXCuvKO4PMGOia41zgg'' = Inl PathMarkerNotFound
   \<and> decryptStreamPath ''2f6c1e0a9d3b7c5e48BmwMXCuvKO4PMGOia41zgg'' = []"
  using decipher_tokenB
  by (simp add: parseOffset_def isDigit_def substringFrom_def cleanText_B decryptResult_tokenB
      decryptStreamPath_def)

text \<open>
  Claim C3, amended: after the cleanup of the decrypted bytes, the decryptor fails with
  \<open>PathMarkerNotFound\<close> (the empty string) when the cleaned text does not contain the five
  characters \<^verbatim>\<open>/hls/\<close>; otherwise it returns the base URL followed by the cleaned text
  from the first occurrence of the four characters \<^verbatim>\<open>hls/\<close> on, that occurrence
  included.
\<close>

theorem decrypt_path_marker:
  assumes "parseOffset tok = Some off"
    and "decipher (base64Decode (substringFrom tok (off + 16) @ ''=='')) = Inr bytes"
  shows "(\<not> sublist ''/hls/'' (cleanText bytes) \<longrightarrow>
            decryptResult tok = Inl PathMarkerNotFound \<and> decryptStreamPath tok = [])
       \<and> (sublist ''/hls/'' (cleanText bytes) \<longrightarrow>
            (\<exists>pre post. cleanText bytes = pre @ ''hls/'' @ post
               \<and> (\<forall>j < length pre. \<not> prefix ''hls/'' (drop j (cleanText bytes)))
               \<and> decryptStreamPath tok = HLS_BASE_URL @ ''hls/'' @ post))"
proof -
  have r: "decryptResult tok = extractHlsPath (cleanText bytes)"
    using assms by (simp add: decryptResult_def)
  show ?thesis
    using extractHlsPath_cases[of "cleanText bytes"]
    unfolding decryptStreamPath_def r by (auto simp del: append.simps)
qed

theorem decrypt_path_marker_witness:
  "parseOffset ''2f6c1e0a9d3b7c5e48NDkhLbnxRMO4a5WChP/AmA'' = Some 2
   \<and> sublist ''/hls/'' ''/hls/a/b.m3u8''
   \<and> decryptStreamPath ''2f6c1e0a9d3b7c5e48NDkhLbnxRMO4a5WChP/AmA''
        = ''https://vodhlsgaana-ebw.akamaized.net/hls/a/b.m3u8''
   \<and> parseOffset ''2f6c1e0a9d3b7c5e48BmwMXCuvKO4PMGOia41zgg'' = Some 2
   \<and> \<not> sublist ''/hls/'' ''hls/abc''
   \<and> decryptResult ''2f6c1e0a9d3b7c5e48BmwMXCuvKO4PMGOia41zgg'' = Inl PathMarkerNotFound
   \<and> decryptStreamPath ''2f6c1e0a9d3b7c5e48BmwMXCuvKO4PMGOia41zgg'' = []"
proof -
  let ?tok = "''2f6c1e0a9d3b7c5e48NDkhLbnxRMO4a5WChP/AmA''"
  let ?tokB = "''2f6c1e0a9d3b7c5e48BmwMXCuvKO4PMGOia41zgg''"
  have off: "parseOffset ?tok = Some 2" by (simp add: parseOffset_def isDigit_def)
  have dec: "decipher (base64Decode (substringFrom ?tok (2 + 16) @ ''==''))
     = Inr [47, 104, 108, 115, 47, 97, 47, 98, 46, 109, 51, 117, 56, 0, 0, 0]"
    using decipher_tokenA by (simp add: substringFrom_def)
  have sl: "sublist ''/hls/'' ''/hls/a/b.m3u8''"
    using includes_str_sublist[of "''/hls/a/b.m3u8''" "''/hls/''"] by (simp add: includes_str_def)
  from decrypt_path_marker[OF off dec] sl obtain pre post where
    pp: "''/hls/a/b.m3u8'' = pre @ ''hls/'' @ post"
      "\<forall>j < length pre. \<not> prefix ''hls/'' (drop j ''/hls/a/b.m3u8'')"
      "decryptStreamPath ?tok = HLS_BASE_URL @ ''hls/'' @ post"
    unfolding cleanText_A by blast
  have "length pre = 1"
  proof (rule ccontr)
    assume n: "length pre \<noteq> 1"
    show False
    proof (cases "length pre = 0")
      case True
      with pp(1) show False by simp
    next
      case False
      with n have "1 < length pre" by (cases pre) auto
      with pp(2) have "\<not> prefix ''hls/'' (drop 1 ''/hls/a/b.m3u8'')" by blast
      then show False by simp
    qed
  qed
  then obtain c where "pre = [c]" by (cases pre) auto
  with pp(1) have "post = ''a/b.m3u8''" by auto
  with pp(3) have a: "decryptStreamPath ?tok = ''https://vodhlsgaana-ebw.akamaized.net/hls/a/b.m3u8''"
    by (simp add: HLS_BASE_URL_def)
  have offB: "parseOffset ?tokB = Some 2" by (simp add: parseOffset_def isDigit_def)
  have decB: "decipher (base64Decode (substringFrom ?tokB (2 + 16) @ ''==''))
     = Inr [104, 108, 115, 47, 97, 98, 99, 0, 0, 0, 0, 0, 0, 0, 0, 0]"
    using decipher_tokenB by (simp add: substringFrom_def)
  have nsl: "\<not> sublist ''/hls/'' ''hls/abc''"
    using includes_str_sublist[of "''hls/abc''" "''/hls/''"] by (simp add: includes_str_def)
  from decrypt_path_marker[OF offB decB] nsl
  have b: "decryptResult ?tokB = Inl PathMarkerNotFound \<and> decryptStreamPath ?tokB = []"
    unfolding cleanText_B by blast
  from off sl a offB nsl b show ?thesis by blast
qed

text \<open>
  Claim C4: for a token with an offset digit whose payload, decoded from Base64 after
  the two padding characters are appended, has a length that is not a multiple of the
  block size 16, the decryptor takes the exit of the cipher error, the \<^verbatim>\<open>catch\<close> block:
  nothing is thrown to the caller, and the result is the empty string, not a text.
\<close>

theorem decrypt_unaligned:
  assumes "parseOffset tok = Some off"
    and "length (base64Decode (substringFrom tok (off + 16) @ ''=='')) mod 16 \<noteq> 0"
  shows "decryptResult tok = Inl CipherError \<and> decryptStreamPath tok = []"
proof -
  define ct where "ct = base64Decode (substringFrom tok (off + 16) @ ''=='')"
  have "16 * (length ct div 16) < length ct"
    using assms(2) unfolding ct_def by presburger
  then have "drop (16 * (length ct div 16)) ct \<noteq> []" by simp
  then have "decipher ct = Inl CipherError"
    by (simp add: decipher_def decipherUpdate_def decipherFinal_def Let_def)
  then show ?thesis
    using assms(1) by (simp add: decryptResult_def decryptStreamPath_def ct_def)
qed

theorem decrypt_unaligned_witness:
  "parseOffset ''0123456789abcdefQUJD'' = Some 0
   \<and> base64Decode (substringFrom ''0123456789abcdefQUJD'' (0 + 16) @ ''=='') = [65, 66, 67]
   \<and> decryptResult ''0123456789abcdefQUJD'' = Inl CipherError
   \<and> decryptStreamPath ''0123456789abcdefQUJD'' = []"
proof -
  have off: "parseOffset ''0123456789abcdefQUJD'' = Some 0"
    by (simp add: parseOffset_def isDigit_def)
  have b: "base64Decode (substringFrom ''0123456789abcdefQUJD'' (0 + 16) @ ''=='') = [65, 66, 67]"
    by (simp add: base64Decode_def unbase64_def substringFrom_def)
  then have "length (base64Decode (substringFrom ''0123456789abcdefQUJD'' (0 + 16) @ ''=='')) mod 16 \<noteq> 0"
    by simp
  from decrypt_unaligned[OF off this] off b show ?thesis by simp
qed

text \<open>
  Claim C10: \<^verbatim>\<open>decryptStreamPath\<close> returns a string on every input. Each of its three
  failures gives the empty string, and any other result is the base URL followed by a
  path, so a result that is not empty starts with the base URL. The empty input, an
  input that does not start with a digit and an input of at most \<open>offset + 16\<close>
  characters all give the empty string.
\<close>

theorem decryptStreamPath_total:
  "((\<exists>e. decryptResult s = Inl e \<and> decryptStreamPath s = [])
      \<or> (\<exists>p. decryptResult s = Inr (HLS_BASE_URL @ p) \<and> decryptStreamPath s = HLS_BASE_URL @ p))
   \<and> (decryptStreamPath s \<noteq> [] \<longrightarrow> prefix HLS_BASE_URL (decryptStreamPath s))
   \<and> (parseOffset s = None \<longrightarrow> decryptStreamPath s = [])
   \<and> (\<forall>off. parseOffset s = Some off \<and> length s \<le> off + 16 \<longrightarrow> decryptStreamPath s = [])
   \<and> decryptStreamPath [] = []"
proof -
  have a: "(\<exists>e. decryptResult s = Inl e \<and> decryptStreamPath s = [])
      \<or> (\<exists>p. decryptResult s = Inr (HLS_BASE_URL @ p) \<and> decryptStreamPath s = HLS_BASE_URL @ p)"
  proof (cases "decryptResult s")
    case (Inl e)
    then show ?thesis by (simp add: decryptStreamPath_def)
  next
    case (Inr u)
    with decryptResult_Inr[OF Inr] show ?thesis by (auto simp: decryptStreamPath_def)
  qed
  then have b: "decryptStreamPath s \<noteq> [] \<longrightarrow> prefix HLS_BASE_URL (decryptStreamPath s)"
    by auto
  have c: "parseOffset s = None \<longrightarrow> decryptStreamPath s = []"
    by (simp add: decryptStreamPath_def decryptResult_def)
  have d: "\<forall>off. parseOffset s = Some off \<and> length s \<le> off + 16 \<longrightarrow> decryptStreamPath s = []"
    by (auto simp: decryptStreamPath_def decryptResult_def substringFrom_def base64Decode_def
        decipher_Nil cleanText_Nil extractHlsPath_def includes_str_def)
  have e: "decryptStreamPath [] = []"
    by (simp add: decryptStreamPath_def decryptResult_def parseOffset_def)
  from a b c d e show ?thesis by blast
qed

theorem decryptStreamPath_total_witness:
  "decryptStreamPath [] = []
   \<and> parseOffset ''x'' = None \<and> decryptStreamPath ''x'' = []
   \<and> parseOffset ''5abcdefgh'' = Some 5 \<and> decryptStreamPath ''5abcdefgh'' = []
   \<and> decryptStreamPath ''2f6c1e0a9d3b7c5e48NDkhLbnxRMO4a5WChP/AmA''
        = ''https://vodhlsgaana-ebw.akamaized.net/hls/a/b.m3u8''
   \<and> prefix HLS_BASE_URL (decryptStreamPath ''2f6c1e0a9d3b7c5e48NDkhLbnxRMO4a5WChP/AmA'')"
proof -
  have x: "parseOffset ''x'' = None" by (simp add: parseOffset_def isDigit_def)
  have s5: "parseOffset ''5abcdefgh'' = Some 5" by (simp add: parseOffset_def isDigit_def)
  have a: "decryptStreamPath ''2f6c1e0a9d3b7c5e48NDkhLbnxRMO4a5WChP/AmA''
        = ''https://vodhlsgaana-ebw.akamaized.net/hls/a/b.m3u8''"
    by (simp add: decryptStreamPath_def decryptResult_tokenA)
  show ?thesis
    using decryptStreamPath_total[of "[]"] decryptStreamPath_total[of "''x''"]
      decryptStreamPath_total[of "''5abcdefgh''"]
      decryptStreamPath_total[of "''2f6c1e0a9d3b7c5e48NDkhLbnxRMO4a5WChP/AmA''"] x s5 a
    by simp
qed

subsection \<open>The resolver in a sample world\<close>

text \<open>
  A master playlist that names a nested playlist, and the media playlist behind it with
  an init segment and two segments. The world counts the fetches.
\<close>

lemma decryptStreamPath_tokenA:
  "decryptStreamPath ''2f6c1e0a9d3b7c5e48NDkhLbnxRMO4a5WChP/AmA''
     = ''https://vodhlsgaana-ebw.akamaized.net/hls/a/b.m3u8''"
  by (simp add: decryptStreamPath_def decryptResult_tokenA)

lemmas resolver_defs = parseHlsManifest_def fetchPlaylist_def split.simps trim_def
  isWhiteSpace_def isNestedPlaylist_def parseStreamPlaylist_def scanLines_def scanLine.simps
  uriAt_def line_defs

lemma durations_4_and_2_5:
  "parseDuration ''#EXTINF:4.0,'' = Fin 4000" "parseDuration ''#EXTINF:2.5,'' = Fin 2500"
  by (simp_all add: number_defs)

lemma two_level_manifest:
  "parseHlsManifest
     (\<lambda>u w. (if u = ''https://vodhlsgaana-ebw.akamaized.net/hls/a/b.m3u8''
              then Response True 200
                ''#EXTM3U\<newline>#EXT-X-STREAM-INF:BANDWIDTH=128000\<newline>v/index.m3u8\<newline>''
              else Response True 200
                ''#EXTM3U\<newline>#EXT-X-MAP:URI=\"init.mp4\"\<newline>#EXTINF:4.0,\<newline>seg0.m4s\<newline>#EXTINF:2.5,\<newline>seg1.m4s\<newline>#EXT-X-ENDLIST\<newline>'',
              Suc w))
     ''https://vodhlsgaana-ebw.akamaized.net/hls/a/b.m3u8'' (0, evs)
   = (Inr \<lparr>initSegmentUrl = Some ''https://vodhlsgaana-ebw.akamaized.net/hls/a/v/init.mp4'',
          segments =
            [\<lparr>url = ''https://vodhlsgaana-ebw.akamaized.net/hls/a/v/seg0.m4s'', durationMs = Fin 4000\<rparr>,
             \<lparr>url = ''https://vodhlsgaana-ebw.akamaized.net/hls/a/v/seg1.m4s'', durationMs = Fin 2500\<rparr>],
          totalDurationMs = Fin 6500\<rparr>,
      2,
      evs @ [PlaylistFetch ''https://vodhlsgaana-ebw.akamaized.net/hls/a/b.m3u8'',
             PlaylistFetch ''https://vodhlsgaana-ebw.akamaized.net/hls/a/v/index.m3u8''])"
  by (simp add: resolver_defs durations_4_and_2_5 round64_def round64pos_def floorLog2_def
      pow2_def roundHalfEven_def compute_floorlog)

lemmas orchestrator_defs = fetchStreamUrl_def acceptedToken_def decryptStreamPath_tokenA
  detectFormat_def includes_str_def

text \<open>
  The orchestrator in the sample world: the token is decrypted, the master playlist and
  the nested playlist are fetched, and the descriptor has the two segments.
\<close>

lemma sample_descriptor:
  "fetchStreamUrl
     (\<lambda>t q w. (Json \<lparr>api_status = Some ''success'',
        api_data = Some \<lparr>stream_path = Some ''2f6c1e0a9d3b7c5e48NDkhLbnxRMO4a5WChP/AmA'',
          bit_rate = Some ''128'', track_format = Some ''mp4_aac''\<rparr>\<rparr>, w))
     (\<lambda>u w. (if u = ''https://vodhlsgaana-ebw.akamaized.net/hls/a/b.m3u8''
              then Response True 200
                ''#EXTM3U\<newline>#EXT-X-STREAM-INF:BANDWIDTH=128000\<newline>v/index.m3u8\<newline>''
              else Response True 200
                ''#EXTM3U\<newline>#EXT-X-MAP:URI=\"init.mp4\"\<newline>#EXTINF:4.0,\<newline>seg0.m4s\<newline>#EXTINF:2.5,\<newline>seg1.m4s\<newline>#EXT-X-ENDLIST\<newline>'',
              Suc w))
     ''29408295'' High (0, [])
   = (Some \<lparr>quality = High, bitRate = ''128'',
         hlsUrl = ''https://vodhlsgaana-ebw.akamaized.net/hls/a/b.m3u8'',
         mediaUrl = ''https://vodhlsgaana-ebw.akamaized.net/hls/a/v/seg0.m4s'',
         initUrl = Some ''https://vodhlsgaana-ebw.akamaized.net/hls/a/v/init.mp4'',
         mediaSegments =
            [\<lparr>url = ''https://vodhlsgaana-ebw.akamaized.net/hls/a/v/seg0.m4s'', durationMs = Fin 4000\<rparr>,
             \<lparr>url = ''https://vodhlsgaana-ebw.akamaized.net/hls/a/v/seg1.m4s'', durationMs = Fin 2500\<rparr>],
         mediaDurationMs = Fin 6500, format = ''m4s''\<rparr>,
      2,
      [UpstreamLookup ''29408295'' High,
       DecryptCall ''2f6c1e0a9d3b7c5e48NDkhLbnxRMO4a5WChP/AmA'',
       PlaylistFetch ''https://vodhlsgaana-ebw.akamaized.net/hls/a/b.m3u8'',
       PlaylistFetch ''https://vodhlsgaana-ebw.akamaized.net/hls/a/v/index.m3u8''])"
  using two_level_manifest[of "[UpstreamLookup ''29408295'' High,
       DecryptCall ''2f6c1e0a9d3b7c5e48NDkhLbnxRMO4a5WChP/AmA'']"]
  by (simp add: orchestrator_defs Let_def)

text \<open>The orchestrator on a flat playlist with one segment, for three kinds of segment.\<close>

lemma flat_descriptor_mp4:
  "fetchStreamUrl
     (\<lambda>t q w. (Json \<lparr>api_status = Some ''success'',
        api_data = Some \<lparr>stream_path = Some ''2f6c1e0a9d3b7c5e48NDkhLbnxRMO4a5WChP/AmA'',
          bit_rate = None, track_format = None\<rparr>\<rparr>, w))
     (\<lambda>u w. (Response True 200 ''#EXTM3U\<newline>#EXTINF:4.0,\<newline>seg0.mp4\<newline>'', Suc w))
     ''29408295'' Medium (0, [])
   = (Some \<lparr>quality = Medium, bitRate = [],
         hlsUrl = ''https://vodhlsgaana-ebw.akamaized.net/hls/a/b.m3u8'',
         mediaUrl = ''https://vodhlsgaana-ebw.akamaized.net/hls/a/seg0.mp4'',
         initUrl = None,
         mediaSegments =
            [\<lparr>url = ''https://vodhlsgaana-ebw.akamaized.net/hls/a/seg0.mp4'', durationMs = Fin 4000\<rparr>],
         mediaDurationMs = Fin 4000, format = ''mp4''\<rparr>,
      1,
      [UpstreamLookup ''29408295'' Medium,
       DecryptCall ''2f6c1e0a9d3b7c5e48NDkhLbnxRMO4a5WChP/AmA'',
       PlaylistFetch ''https://vodhlsgaana-ebw.akamaized.net/hls/a/b.m3u8''])"
  by (simp add: orchestrator_defs Let_def resolver_defs durations_4_and_2_5 round64_def
      round64pos_def floorLog2_def pow2_def roundHalfEven_def compute_floorlog)

lemma flat_descriptor_ts:
  "fetchStreamUrl
     (\<lambda>t q w. (Json \<lparr>api_status = Some ''success'',
        api_data = Some \<lparr>stream_path = Some ''2f6c1e0a9d3b7c5e48NDkhLbnxRMO4a5WChP/AmA'',
          bit_rate = None, track_format = None\<rparr>\<rparr>, w))
     (\<lambda>u w. (Response True 200 ''#EXTM3U\<newline>#EXTINF:4.0,\<newline>seg0.ts\<newline>'', Suc w))
     ''29408295'' Medium (0, [])
   = (Some \<lparr>quality = Medium, bitRate = [],
         hlsUrl = ''https://vodhlsgaana-ebw.akamaized.net/hls/a/b.m3u8'',
         mediaUrl = ''https://vodhlsgaana-ebw.akamaized.net/hls/a/seg0.ts'',
         initUrl = None,
         mediaSegments =
            [\<lparr>url = ''https://vodhlsgaana-ebw.akamaized.net/hls/a/seg0.ts'', durationMs = Fin 4000\<rparr>],
         mediaDurationMs = Fin 4000, format = ''ts''\<rparr>,
      1,
      [UpstreamLookup ''29408295'' Medium,
       DecryptCall ''2f6c1e0a9d3b7c5e48NDkhLbnxRMO4a5WChP/AmA'',
       PlaylistFetch ''https://vodhlsgaana-ebw.akamaized.net/hls/a/b.m3u8''])"
  by (simp add: orchestrator_defs Let_def resolver_defs durations_4_and_2_5 round64_def
      round64pos_def floorLog2_def pow2_def roundHalfEven_def compute_floorlog)

lemma flat_descriptor_aac:
  "fetchStreamUrl
     (\<lambda>t q w. (Json \<lparr>api_status = Some ''success'',
        api_data = Some \<lparr>stream_path = Some ''2f6c1e0a9d3b7c5e48NDkhLbnxRMO4a5WChP/AmA'',
          bit_rate = None, track_format = None\<rparr>\<rparr>, w))
     (\<lambda>u w. (Response True 200 ''#EXTM3U\<newline>#EXTINF:4.0,\<newline>seg0.aac\<newline>'', Suc w))
     ''29408295'' Medium (0, [])
   = (Some \<lparr>quality = Medium, bitRate = [],
         hlsUrl = ''https://vodhlsgaana-ebw.akamaized.net/hls/a/b.m3u8'',
         mediaUrl = ''https://vodhlsgaana-ebw.akamaized.net/hls/a/seg0.aac'',
         initUrl = None,
         mediaSegments =
            [\<lparr>url = ''https://vodhlsgaana-ebw.akamaized.net/hls/a/seg0.aac'', durationMs = Fin 4000\<rparr>],
         mediaDurationMs = Fin 4000, format = ''aac''\<rparr>,
      1,
      [UpstreamLookup ''29408295'' Medium,
       DecryptCall ''2f6c1e0a9d3b7c5e48NDkhLbnxRMO4a5WChP/AmA'',
       PlaylistFetch ''https://vodhlsgaana-ebw.akamaized.net/hls/a/b.m3u8''])"
  by (simp add: orchestrator_defs Let_def resolver_defs durations_4_and_2_5 round64_def
      round64pos_def floorLog2_def pow2_def roundHalfEven_def compute_floorlog)

subsection \<open>Manifests without segments\<close>

lemma no_segment_lines:
  assumes "\<forall>l \<in> set ls. startsWith l ''#'' \<or> \<not> isSegmentLine l"
  shows "segments (parseStreamPlaylist u ls) = []
         \<and> totalDurationMs (parseStreamPlaylist u ls) = Fin 0"
proof -
  have "fst (snd (scanLines (getBaseUrl u) (None, [], Fin 6000) ls)) = []"
    using assms
  proof (induction ls rule: rev_induct)
    case Nil
    then show ?case by (simp add: scanLines_Nil)
  next
    case (snoc l ls)
    obtain i g c where st: "scanLines (getBaseUrl u) (None, [], Fin 6000) ls = (i, g, c)"
      by (cases "scanLines (getBaseUrl u) (None, [], Fin 6000) ls") auto
    with snoc have "g = []" by simp
    moreover have "fst (snd (scanLine (getBaseUrl u) (i, g, c) l)) = g"
      using snoc.prems by (auto simp: scanLine.simps Let_def)
    ultimately show ?case using st by (simp add: scanLines_append scanLines_Cons scanLines_Nil)
  qed
  then show ?thesis
    by (auto simp: parseStreamPlaylist_def split: prod.splits)
qed

lemma fetchStreamUrl_Some:
  assumes "fetchStreamUrl lookup net trackId q st = (Some m, st')"
  shows "\<exists>first rest. mediaSegments m = first # rest \<and> mediaUrl m = url first
           \<and> format m = detectFormat (url first)"
  using assms
  by (auto simp: fetchStreamUrl_def Let_def split: prod.splits api_reply.splits option.splits
      if_splits sum.splits list.splits)

text \<open>
  Claim C1, as it is stated: the resolver fails with \<open>NoSegmentsFound\<close> whenever the
  parsing yields no segment, and never returns a manifest with an empty list of
  segments. It fails on a playlist of directives only: \<^verbatim>\<open>parseHlsManifest\<close> returns the
  manifest with no segments and a total duration of 0 as its result.
\<close>

theorem resolver_returns_empty_manifest:
  "parseHlsManifest (\<lambda>u w. (Response True 200 ''#EXTM3U\<newline>#EXT-X-ENDLIST\<newline>'', Suc w))
     ''https://vodhlsgaana-ebw.akamaized.net/hls/a/b.m3u8'' (0, [])
   = (Inr \<lparr>initSegmentUrl = None, segments = [], totalDurationMs = Fin 0\<rparr>,
      1, [PlaylistFetch ''https://vodhlsgaana-ebw.akamaized.net/hls/a/b.m3u8''])"
  by (simp add: resolver_defs)

text \<open>
  Claim C1, amended: the resolver has no failure for a manifest without segments: when
  no line is a segment line, \<^verbatim>\<open>parseStreamPlaylist\<close> returns a manifest with the empty
  list of segments and the total duration 0. The orchestrator takes that failure:
  \<^verbatim>\<open>fetchStreamUrl\<close> returns \<^verbatim>\<open>null\<close> when the resolved manifest has no segments, and a
  descriptor that it returns always has a segment.
\<close>

theorem zero_segments_rejected_by_orchestrator:
  "((\<forall>l \<in> set ls. startsWith l ''#'' \<or> \<not> isSegmentLine l) \<longrightarrow>
       segments (parseStreamPlaylist u ls) = []
       \<and> totalDurationMs (parseStreamPlaylist u ls) = Fin 0)
   \<and> (lookup t q w = (Json d, w1) \<and> api_status d = Some ''success'' \<and> api_data d = Some sd
        \<and> stream_path sd = Some tok \<and> tok \<noteq> [] \<and> decryptStreamPath tok \<noteq> []
        \<and> parseHlsManifest net (decryptStreamPath tok)
             (w1, evs @ [UpstreamLookup t q, DecryptCall tok]) = (Inr man, st3)
        \<and> segments man = []
       \<longrightarrow> fetchStreamUrl lookup net t q (w, evs) = (None, st3))
   \<and> (fetchStreamUrl lookup net t q st = (Some m, st') \<longrightarrow> mediaSegments m \<noteq> [])"
proof (intro conjI impI)
  assume "\<forall>l \<in> set ls. startsWith l ''#'' \<or> \<not> isSegmentLine l"
  then show "segments (parseStreamPlaylist u ls) = []"
    and "totalDurationMs (parseStreamPlaylist u ls) = Fin 0"
    using no_segment_lines by blast+
next
  assume "fetchStreamUrl lookup net t q st = (Some m, st')"
  from fetchStreamUrl_Some[OF this] show "mediaSegments m \<noteq> []" by auto
next
  assume h: "lookup t q w = (Json d, w1) \<and> api_status d = Some ''success'' \<and> api_data d = Some sd
        \<and> stream_path sd = Some tok \<and> tok \<noteq> [] \<and> decryptStreamPath tok \<noteq> []
        \<and> parseHlsManifest net (decryptStreamPath tok)
             (w1, evs @ [UpstreamLookup t q, DecryptCall tok]) = (Inr man, st3)
        \<and> segments man = []"
  then have "acceptedToken d = Some (tok, sd)" by (simp add: acceptedToken_def)
  with h show "fetchStreamUrl lookup net t q (w, evs) = (None, st3)"
    by (simp add: fetchStreamUrl_def)
qed

theorem zero_segments_rejected_by_orchestrator_witness:
  "segments (parseStreamPlaylist ''https://h/a/p.m3u8'' [''#EXTM3U'', ''notes.txt'', ''#EXT-X-ENDLIST'']) = []
   \<and> totalDurationMs (parseStreamPlaylist ''https://h/a/p.m3u8'' [''#EXTM3U'', ''notes.txt'', ''#EXT-X-ENDLIST'']) = Fin 0
   \<and> fetchStreamUrl
     (\<lambda>t q w. (Json \<lparr>api_status = Some ''success'',
        api_data = Some \<lparr>stream_path = Some ''2f6c1e0a9d3b7c5e48NDkhLbnxRMO4a5WChP/AmA'',
          bit_rate = Some ''128'', track_format = Some ''mp4_aac''\<rparr>\<rparr>, w))
     (\<lambda>u w. (Response True 200 ''#EXTM3U\<newline>#EXT-X-ENDLIST\<newline>'', Suc w))
     ''29408295'' High (0, [])
     = (None, 1, [UpstreamLookup ''29408295'' High,
          DecryptCall ''2f6c1e0a9d3b7c5e48NDkhLbnxRMO4a5WChP/AmA'',
          PlaylistFetch ''https://vodhlsgaana-ebw.akamaized.net/hls/a/b.m3u8''])
   \<and> mediaSegments \<lparr>quality = High, bitRate = ''128'',
         hlsUrl = ''https://vodhlsgaana-ebw.akamaized.net/hls/a/b.m3u8'',
         mediaUrl = ''https://vodhlsgaana-ebw.akamaized.net/hls/a/v/seg0.m4s'',
         initUrl = Some ''https://vodhlsgaana-ebw.akamaized.net/hls/a/v/init.mp4'',
         mediaSegments =
            [\<lparr>url = ''https://vodhlsgaana-ebw.akamaized.net/hls/a/v/seg0.m4s'', durationMs = Fin 4000\<rparr>,
             \<lparr>url = ''https://vodhlsgaana-ebw.akamaized.net/hls/a/v/seg1.m4s'', durationMs = Fin 2500\<rparr>],
         mediaDurationMs = Fin 6500, format = ''m4s''\<rparr> \<noteq> []"
proof -
  let ?tok = "''2f6c1e0a9d3b7c5e48NDkhLbnxRMO4a5WChP/AmA''"
  let ?sd = "\<lparr>stream_path = Some ?tok, bit_rate = Some ''128'', track_format = Some ''mp4_aac''\<rparr>"
  let ?d = "\<lparr>api_status = Some ''success'', api_data = Some ?sd\<rparr>"
  let ?lookup = "\<lambda>t q w. (Json ?d, w) :: api_reply \<times> nat"
  let ?net = "\<lambda>u w. (Response True 200 ''#EXTM3U\<newline>#EXT-X-ENDLIST\<newline>'', Suc w) :: response \<times> nat"
  let ?evs = "[UpstreamLookup ''29408295'' High, DecryptCall ?tok]"
  let ?man = "\<lparr>initSegmentUrl = None, segments = [], totalDurationMs = Fin 0\<rparr>"
  let ?st3 = "(1 :: nat, ?evs @ [PlaylistFetch ''https://vodhlsgaana-ebw.akamaized.net/hls/a/b.m3u8''])"
  have lines: "\<forall>l \<in> set [''#EXTM3U'', ''notes.txt'', ''#EXT-X-ENDLIST'']. startsWith l ''#'' \<or> \<not> isSegmentLine l"
    by (simp add: line_defs)
  have man: "parseHlsManifest ?net (decryptStreamPath ?tok) (0, [] @ ?evs) = (Inr ?man, ?st3)"
    by (simp add: decryptStreamPath_tokenA resolver_defs)
  have hyps: "?lookup ''29408295'' High 0 = (Json ?d, 0) \<and> api_status ?d = Some ''success''
        \<and> api_data ?d = Some ?sd \<and> stream_path ?sd = Some ?tok \<and> ?tok \<noteq> []
        \<and> decryptStreamPath ?tok \<noteq> []
        \<and> parseHlsManifest ?net (decryptStreamPath ?tok)
             (0, [] @ [UpstreamLookup ''29408295'' High, DecryptCall ?tok]) = (Inr ?man, ?st3)
        \<and> segments ?man = []"
    using man by (simp add: decryptStreamPath_tokenA)
  note T = zero_segments_rejected_by_orchestrator[where ls = "[''#EXTM3U'', ''notes.txt'', ''#EXT-X-ENDLIST'']"
      and u = "''https://h/a/p.m3u8''" and lookup = ?lookup and t = "''29408295''" and q = High
      and w = 0 and d = ?d and ?w1.0 = 0 and sd = ?sd and tok = ?tok and net = ?net and evs = "[]"
      and man = ?man and ?st3.0 = ?st3]
  note S = zero_segments_rejected_by_orchestrator[THEN conjunct2, THEN conjunct2, rule_format,
      OF sample_descriptor]
  from T lines hyps S show ?thesis by simp
qed

subsection \<open>The container format\<close>

text \<open>
  Claim C7, as it is stated: the format of a returned descriptor is the extension that
  the URL of the first segment ends with. It fails on a segment \<^verbatim>\<open>song.mp4/seg-1.ts\<close>:
  the URL ends with \<^verbatim>\<open>.ts\<close>, but \<^verbatim>\<open>.mp4\<close> occurs in it and is tested first, and the
  format is \<^verbatim>\<open>mp4\<close>.
\<close>

theorem format_of_ts_segment_under_mp4_directory:
  "fetchStreamUrl
     (\<lambda>t q w. (Json \<lparr>api_status = Some ''success'',
        api_data = Some \<lparr>stream_path = Some ''2f6c1e0a9d3b7c5e48NDkhLbnxRMO4a5WChP/AmA'',
          bit_rate = Some ''128'', track_format = Some ''mp4_aac''\<rparr>\<rparr>, w))
     (\<lambda>u w. (Response True 200 ''#EXTM3U\<newline>#EXTINF:4.0,\<newline>song.mp4/seg-1.ts\<newline>'', Suc w))
     ''29408295'' High (0, [])
   = (Some \<lparr>quality = High, bitRate = ''128'',
         hlsUrl = ''https://vodhlsgaana-ebw.akamaized.net/hls/a/b.m3u8'',
         mediaUrl = ''https://vodhlsgaana-ebw.akamaized.net/hls/a/song.mp4/seg-1.ts'',
         initUrl = None,
         mediaSegments =
            [\<lparr>url = ''https://vodhlsgaana-ebw.akamaized.net/hls/a/song.mp4/seg-1.ts'', durationMs = Fin 4000\<rparr>],
         mediaDurationMs = Fin 4000, format = ''mp4''\<rparr>,
      1,
      [UpstreamLookup ''29408295'' High,
       DecryptCall ''2f6c1e0a9d3b7c5e48NDkhLbnxRMO4a5WChP/AmA'',
       PlaylistFetch ''https://vodhlsgaana-ebw.akamaized.net/hls/a/b.m3u8''])
   \<and> suffix ''.ts'' ''https://vodhlsgaana-ebw.akamaized.net/hls/a/song.mp4/seg-1.ts''"
  by (simp add: orchestrator_defs Let_def resolver_defs durations_4_and_2_5 round64_def
      round64pos_def floorLog2_def pow2_def roundHalfEven_def compute_floorlog suffix_to_prefix)

text \<open>
  Claim C7, amended: the format of a returned descriptor is that of the first of
  \<^verbatim>\<open>.m4s\<close>, \<^verbatim>\<open>.mp4\<close>, \<^verbatim>\<open>.ts\<close>, \<^verbatim>\<open>.aac\<close>, in this order, that occurs anywhere in the
  URL of the first segment, and \<^verbatim>\<open>m4a\<close> when none occurs. So a URL that ends with one of
  these extensions has that format when none of the extensions before it occurs in the
  URL.
\<close>

theorem format_by_containment:
  assumes "fetchStreamUrl lookup net trackId q st = (Some m, st')"
  shows "\<exists>first rest. mediaSegments m = first # rest \<and> mediaUrl m = url first
     \<and> format m =
          (if sublist ''.m4s'' (url first) then ''m4s''
           else if sublist ''.mp4'' (url first) then ''mp4''
           else if sublist ''.ts'' (url first) then ''ts''
           else if sublist ''.aac'' (url first) then ''aac''
           else ''m4a'')
     \<and> (suffix ''.m4s'' (url first) \<longrightarrow> format m = ''m4s'')
     \<and> (suffix ''.mp4'' (url first) \<and> \<not> sublist ''.m4s'' (url first) \<longrightarrow> format m = ''mp4'')
     \<and> (suffix ''.ts'' (url first) \<and> \<not> sublist ''.m4s'' (url first)
          \<and> \<not> sublist ''.mp4'' (url first) \<longrightarrow> format m = ''ts'')
     \<and> (suffix ''.aac'' (url first) \<and> \<not> sublist ''.m4s'' (url first)
          \<and> \<not> sublist ''.mp4'' (url first) \<and> \<not> sublist ''.ts'' (url first)
          \<longrightarrow> format m = ''aac'')"
proof -
  from fetchStreamUrl_Some[OF assms] obtain first rest where
    f: "mediaSegments m = first # rest" "mediaUrl m = url first"
       "format m = detectFormat (url first)"
    by blast
  have fmt: "format m =
          (if sublist ''.m4s'' (url first) then ''m4s''
           else if sublist ''.mp4'' (url first) then ''mp4''
           else if sublist ''.ts'' (url first) then ''ts''
           else if sublist ''.aac'' (url first) then ''aac''
           else ''m4a'')"
    unfolding f(3) detectFormat_def includes_str_sublist by (rule refl)
  have sfx: "suffix e (url first) \<Longrightarrow> sublist e (url first)" for e
    by (rule suffix_imp_sublist)
  from f(1,2) fmt sfx show ?thesis by (intro exI[of _ first] exI[of _ rest]) auto
qed

theorem format_by_containment_witness:
  "suffix ''.m4s'' ''https://vodhlsgaana-ebw.akamaized.net/hls/a/v/seg0.m4s''
   \<and> format \<lparr>quality = High, bitRate = ''128'',
         hlsUrl = ''https://vodhlsgaana-ebw.akamaized.net/hls/a/b.m3u8'',
         mediaUrl = ''https://vodhlsgaana-ebw.akamaized.net/hls/a/v/seg0.m4s'',
         initUrl = Some ''https://vodhlsgaana-ebw.akamaized.net/hls/a/v/init.mp4'',
         mediaSegments =
            [\<lparr>url = ''https://vodhlsgaana-ebw.akamaized.net/hls/a/v/seg0.m4s'', durationMs = Fin 4000\<rparr>,
             \<lparr>url = ''https://vodhlsgaana-ebw.akamaized.net/hls/a/v/seg1.m4s'', durationMs = Fin 2500\<rparr>],
         mediaDurationMs = Fin 6500, format = ''m4s''\<rparr> = ''m4s''
   \<and> suffix ''.mp4'' ''https://vodhlsgaana-ebw.akamaized.net/hls/a/seg0.mp4''
   \<and> \<not> sublist ''.m4s'' ''https://vodhlsgaana-ebw.akamaized.net/hls/a/seg0.mp4''
   \<and> format \<lparr>quality = Medium, bitRate = [],
         hlsUrl = ''https://vodhlsgaana-ebw.akamaized.net/hls/a/b.m3u8'',
         mediaUrl = ''https://vodhlsgaana-ebw.akamaized.net/hls/a/seg0.mp4'',
         initUrl = None,
         mediaSegments =
            [\<lparr>url = ''https://vodhlsgaana-ebw.akamaized.net/hls/a/seg0.mp4'', durationMs = Fin 4000\<rparr>],
         mediaDurationMs = Fin 4000, format = ''mp4''\<rparr> = ''mp4''
   \<and> suffix ''.ts'' ''https://vodhlsgaana-ebw.akamaized.net/hls/a/seg0.ts''
   \<and> \<not> sublist ''.m4s'' ''https://vodhlsgaana-ebw.akamaized.net/hls/a/seg0.ts''
   \<and> \<not> sublist ''.mp4'' ''https://vodhlsgaana-ebw.akamaized.net/hls/a/seg0.ts''
   \<and> format \<lparr>quality = Medium, bitRate = [],
         hlsUrl = ''https://vodhlsgaana-ebw.akamaized.net/hls/a/b.m3u8'',
         mediaUrl = ''https://vodhlsgaana-ebw.akamaized.net/hls/a/seg0.ts'',
         initUrl = None,
         mediaSegments =
            [\<lparr>url = ''https://vodhlsgaana-ebw.akamaized.net/hls/a/seg0.ts'', durationMs = Fin 4000\<rparr>],
         mediaDurationMs = Fin 4000, format = ''ts''\<rparr> = ''ts''
   \<and> suffix ''.aac'' ''https://vodhlsgaana-ebw.akamaized.net/hls/a/seg0.aac''
   \<and> \<not> sublist ''.m4s'' ''https://vodhlsgaana-ebw.akamaized.net/hls/a/seg0.aac''
   \<and> \<not> sublist ''.mp4'' ''https://vodhlsgaana-ebw.akamaized.net/hls/a/seg0.aac''
   \<and> \<not> sublist ''.ts'' ''https://vodhlsgaana-ebw.akamaized.net/hls/a/seg0.aac''
   \<and> format \<lparr>quality = Medium, bitRate = [],
         hlsUrl = ''https://vodhlsgaana-ebw.akamaized.net/hls/a/b.m3u8'',
         mediaUrl = ''https://vodhlsgaana-ebw.akamaized.net/hls/a/seg0.aac'',
         initUrl = None,
         mediaSegments =
            [\<lparr>url = ''https://vodhlsgaana-ebw.akamaized.net/hls/a/seg0.aac'', durationMs = Fin 4000\<rparr>],
         mediaDurationMs = Fin 4000, format = ''aac''\<rparr> = ''aac''"
proof -
  have sfx: "suffix ''.m4s'' ''https://vodhlsgaana-ebw.akamaized.net/hls/a/v/seg0.m4s''"
    "suffix ''.mp4'' ''https://vodhlsgaana-ebw.akamaized.net/hls/a/seg0.mp4''"
    "suffix ''.ts'' ''https://vodhlsgaana-ebw.akamaized.net/hls/a/seg0.ts''"
    "suffix ''.aac'' ''https://vodhlsgaana-ebw.akamaized.net/hls/a/seg0.aac''"
    by (simp_all add: suffix_to_prefix)
  have nsub: "\<not> sublist ''.m4s'' ''https://vodhlsgaana-ebw.akamaized.net/hls/a/seg0.mp4''"
    "\<not> sublist ''.m4s'' ''https://vodhlsgaana-ebw.akamaized.net/hls/a/seg0.ts''"
    "\<not> sublist ''.mp4'' ''https://vodhlsgaana-ebw.akamaized.net/hls/a/seg0.ts''"
    "\<not> sublist ''.m4s'' ''https://vodhlsgaana-ebw.akamaized.net/hls/a/seg0.aac''"
    "\<not> sublist ''.mp4'' ''https://vodhlsgaana-ebw.akamaized.net/hls/a/seg0.aac''"
    "\<not> sublist ''.ts'' ''https://vodhlsgaana-ebw.akamaized.net/hls/a/seg0.aac''"
    using includes_str_sublist[of "''https://vodhlsgaana-ebw.akamaized.net/hls/a/seg0.mp4''" "''.m4s''"]
      includes_str_sublist[of "''https://vodhlsgaana-ebw.akamaized.net/hls/a/seg0.ts''" "''.m4s''"]
      includes_str_sublist[of "''https://vodhlsgaana-ebw.akamaized.net/hls/a/seg0.ts''" "''.mp4''"]
      includes_str_sublist[of "''https://vodhlsgaana-ebw.akamaized.net/hls/a/seg0.aac''" "''.m4s''"]
      includes_str_sublist[of "''https://vodhlsgaana-ebw.akamaized.net/hls/a/seg0.aac''" "''.mp4''"]
      includes_str_sublist[of "''https://vodhlsgaana-ebw.akamaized.net/hls/a/seg0.aac''" "''.ts''"]
    by (simp_all add: includes_str_def)
  show ?thesis
    using sfx nsub format_by_containment[OF sample_descriptor]
      format_by_containment[OF flat_descriptor_mp4]
      format_by_containment[OF flat_descriptor_ts]
      format_by_containment[OF flat_descriptor_aac]
    by simp
qed

subsection \<open>The model of the runtime against known values\<close>

text \<open>
  The exponent that \<open>floorLog2\<close> returns is the binary exponent of its argument, and a value
  rounded to binary64 is at most half a unit in the last place away from the exact one.
  The decimal \<^verbatim>\<open>0.1\<close> parses to the binary64 number nearest to it, and the inverse cipher
  decrypts the example vector of FIPS 197, appendix C.1.
\<close>

lemma pow2_add1: "pow2 (k + 1) = 2 * pow2 k"
proof (cases "0 \<le> k")
  case True
  then have "nat (k + 1) = Suc (nat k)" by simp
  with True show ?thesis by (simp add: pow2_def)
next
  case False
  then have "nat (- k) = Suc (nat (- (k + 1)))" by simp
  with False show ?thesis by (cases "k = -1") (simp_all add: pow2_def)
qed

lemma floorlog2_bounds_nat:
  assumes "0 < n"
  shows "2 ^ (floorlog 2 n - 1) \<le> n \<and> n < 2 ^ floorlog 2 n \<and> 0 < floorlog 2 n"
proof -
  have "(2::nat) ^ (floorlog 2 n - 1) \<le> n \<and> n < 2 ^ floorlog 2 n"
    using floorlog_bounds[of n 2] assms by simp
  moreover have "0 < floorlog 2 n" using assms by (simp add: floorlog_def)
  ultimately show ?thesis by simp
qed

lemma floorLog2_bounds:
  assumes "0 < a"
  shows "pow2 (floorLog2 a) \<le> a \<and> a < pow2 (floorLog2 a + 1)"
proof (cases "1 \<le> a")
  case True
  define n where "n = nat \<lfloor>a\<rfloor>"
  have n: "0 < n" "rat_of_nat n \<le> a" "a < rat_of_nat n + 1"
    using True unfolding n_def by (simp_all add: of_nat_nat, linarith+)
  from floorlog2_bounds_nat[OF n(1)] have b: "2 ^ (floorlog 2 n - 1) \<le> n" "n < 2 ^ floorlog 2 n" "0 < floorlog 2 n"
    by simp_all
  have e: "floorLog2 a = int (floorlog 2 n) - 1" using True by (simp add: floorLog2_def n_def)
  have nn: "0 \<le> int (floorlog 2 n) - 1" using b(3) by simp
  have "nat (int (floorlog 2 n) - 1) = floorlog 2 n - 1" by simp
  then have p1: "pow2 (floorLog2 a) = 2 ^ (floorlog 2 n - 1)" using nn by (simp add: e pow2_def)
  have "nat (int (floorlog 2 n) - 1 + 1) = floorlog 2 n" by simp
  then have p2: "pow2 (floorLog2 a + 1) = 2 ^ floorlog 2 n" by (simp add: e pow2_def)
  have "rat_of_nat (2 ^ (floorlog 2 n - 1)) \<le> rat_of_nat n" using b(1) by (simp only: of_nat_le_iff)
  then have "(2::rat) ^ (floorlog 2 n - 1) \<le> rat_of_nat n" by (simp only: of_nat_power of_nat_numeral)
  then have lo: "pow2 (floorLog2 a) \<le> a" using n(2) unfolding p1 by (rule order_trans)
  have "n + 1 \<le> 2 ^ floorlog 2 n" using b(2) by simp
  then have "rat_of_nat (n + 1) \<le> rat_of_nat (2 ^ floorlog 2 n)" by (simp only: of_nat_le_iff)
  then have "rat_of_nat n + 1 \<le> (2::rat) ^ floorlog 2 n"
    by (simp only: of_nat_power of_nat_numeral of_nat_add of_nat_1)
  with n(3) have hi: "a < pow2 (floorLog2 a + 1)" unfolding p2 by (rule less_le_trans)
  from lo hi show ?thesis by simp
next
  case False
  then have a1: "a < 1" by simp
  define c where "c = \<lceil>1 / a\<rceil>"
  define m where "m = nat (c - 1)"
  have inv: "1 < 1 / a" using assms a1 by simp
  then have c2: "2 \<le> c" unfolding c_def by linarith
  have cb: "rat_of_int c - 1 < 1 / a" "1 / a \<le> rat_of_int c" unfolding c_def by linarith+
  have m: "0 < m" "int m = c - 1" using c2 by (simp_all add: m_def)
  from floorlog2_bounds_nat[OF m(1)] have b: "2 ^ (floorlog 2 m - 1) \<le> m" "m < 2 ^ floorlog 2 m" "0 < floorlog 2 m"
    by simp_all
  define k where "k = floorlog 2 m"
  have e: "floorLog2 a = - int k" using False by (simp add: floorLog2_def m_def c_def k_def)
  have kpos: "0 < k" using b(3) by (simp add: k_def)
  have p1: "pow2 (floorLog2 a) = 1 / 2 ^ k" using kpos by (simp add: e pow2_def)
  have "nat (int k - 1) = k - 1" by simp
  then have p2: "pow2 (floorLog2 a + 1) = 1 / 2 ^ (k - 1)"
    using kpos by (cases "k = 1") (simp_all add: e pow2_def)
  have "m + 1 \<le> 2 ^ k" using b(2) by (simp add: k_def)
  then have "rat_of_nat (m + 1) \<le> rat_of_nat (2 ^ k)" by (simp only: of_nat_le_iff)
  then have "rat_of_nat m + 1 \<le> (2::rat) ^ k"
    by (simp only: of_nat_power of_nat_numeral of_nat_add of_nat_1)
  moreover have mc: "rat_of_nat m = rat_of_int c - 1"
    using m(2) by (metis of_int_1 of_int_diff of_int_of_nat_eq)
  ultimately have "1 / a \<le> 2 ^ k" using cb(2) by linarith
  then have lo: "1 / 2 ^ k \<le> a" using assms by (simp add: field_simps)
  have "rat_of_nat (2 ^ (k - 1)) \<le> rat_of_nat m" using b(1) by (simp only: of_nat_le_iff k_def)
  then have "(2::rat) ^ (k - 1) \<le> rat_of_nat m" by (simp only: of_nat_power of_nat_numeral)
  then have "2 ^ (k - 1) < 1 / a" using cb(1) mc by linarith
  then have hi: "a < 1 / 2 ^ (k - 1)" using assms by (simp add: field_simps)
  from lo hi p1 p2 show ?thesis by simp
qed

lemma roundHalfEven_near: "\<bar>rat_of_int (roundHalfEven m) - m\<bar> \<le> 1 / 2"
proof -
  define f where "f = \<lfloor>m\<rfloor>"
  define r where "r = m - rat_of_int f"
  have r: "0 \<le> r" "r < 1" unfolding r_def f_def by linarith+
  have m: "m = rat_of_int f + r" by (simp add: r_def)
  have rhe: "roundHalfEven m =
    (if r < 1 / 2 then f else if 1 / 2 < r then f + 1 else if even f then f else f + 1)"
    by (simp add: roundHalfEven_def Let_def f_def r_def)
  have d: "rat_of_int (roundHalfEven m) - m =
    (if r < 1 / 2 then - r else if 1 / 2 < r then 1 - r else if even f then - r else 1 - r)"
    unfolding rhe by (simp add: r_def)
  show ?thesis unfolding d using r by (auto simp: abs_if)
qed


lemma round64pos_near:
  assumes "0 < a" and "round64pos a = Fin v"
  shows "\<bar>v - a\<bar> \<le> pow2 (max (floorLog2 a - 52) (- 1074)) / 2"
proof -
  define p where "p = max (floorLog2 a - 52) (- 1074)"
  have pp: "0 < pow2 p" by (rule pow2_pos)
  have v: "v = rat_of_int (roundHalfEven (a / pow2 p)) * pow2 p"
    using assms(2) by (simp add: round64pos_def Let_def p_def split: if_splits)
  have "v - a = (rat_of_int (roundHalfEven (a / pow2 p)) - a / pow2 p) * pow2 p"
    using pp by (simp add: v field_simps)
  then have "\<bar>v - a\<bar> = \<bar>rat_of_int (roundHalfEven (a / pow2 p)) - a / pow2 p\<bar> * pow2 p"
    using pp by (simp add: abs_mult)
  also have "\<dots> \<le> 1 / 2 * pow2 p"
    using roundHalfEven_near[of "a / pow2 p"] pp by (intro mult_right_mono) simp_all
  finally show ?thesis by (simp add: p_def)
qed

lemma parseFloat_one_tenth:
  "parseFloat ''0.1'' = Fin (3602879701896397 / 36028797018963968)"
  by (simp add: number_defs)

lemma aes_fips197_example:
  "aesDecryptBlock (roundKeysRev [0, 1, 2, 3, 4, 5, 6, 7, 8, 9, 10, 11, 12, 13, 14, 15])
     [0x69, 0xC4, 0xE0, 0xD8, 0x6A, 0x7B, 0x04, 0x30, 0xD8, 0xCD, 0xB7, 0x80, 0x70, 0xB4, 0xC5, 0x5A]
   = [0x00, 0x11, 0x22, 0x33, 0x44, 0x55, 0x66, 0x77, 0x88, 0x99, 0xAA, 0xBB, 0xCC, 0xDD, 0xEE, 0xFF]"
  by (simp add: aes_defs roundKeysRev_def)

end
